theory Spec2Isabelle
  imports Complex_Main "HOL-Library.Product_Lexorder"
begin

section \<open>Text primitives of the Python source\<close>

text \<open>
  Texts are modelled as \<^typ>\<open>string\<close>: one \<^typ>\<open>char\<close> per code point, restricted to
  the 8-bit range. \<open>isspace\<close> and \<open>isupper\<close> follow Python's \<open>str.isspace\<close> and
  \<open>str.isupper\<close> on single characters of that range; \<open>\s\<close> of the \<open>re\<close> module uses
  the same whitespace class.
\<close>

definition isspace :: "char \<Rightarrow> bool" where
  "isspace c \<longleftrightarrow> c \<in> set [CHR 0x09, CHR 0x0A, CHR 0x0B, CHR 0x0C, CHR 0x0D,
                         CHR 0x1C, CHR 0x1D, CHR 0x1E, CHR 0x1F, CHR 0x20,
                         CHR 0x85, CHR 0xA0]"

definition isupper :: "char \<Rightarrow> bool" where
  "isupper c \<longleftrightarrow> (let n = (of_char c :: nat) in
       (65 \<le> n \<and> n \<le> 90) \<or> (192 \<le> n \<and> n \<le> 214) \<or> (216 \<le> n \<and> n \<le> 222))"

text \<open>\<open>s.strip()\<close>: whitespace removed at both ends.\<close>

definition strip :: "string \<Rightarrow> string" where
  "strip s = rev (dropWhile isspace (rev (dropWhile isspace s)))"

text \<open>\<open>s.split("/", 1)[0]\<close>: the text before the first slash, all of it when there is none.\<close>

definition split_slash_first :: "string \<Rightarrow> string" where
  "split_slash_first s = takeWhile (\<lambda>c. c \<noteq> CHR ''/'') s"

text \<open>\<open>" ".join(xs)\<close>.\<close>

fun join_space :: "string list \<Rightarrow> string" where
  "join_space [] = []"
| "join_space [x] = x"
| "join_space (x # y # ys) = x @ CHR '' '' # join_space (y # ys)"

section \<open>The honorific pattern\<close>

text \<open>
  The fragment of regular expressions that \<open>title_match_pattern\<close> uses: literal text,
  \<open>\s*\<close>, concatenation, ordered alternation and the optional group \<open>(?:...)?\<close>.
  \<open>rx_match r s\<close> lists the remainders of \<open>s\<close> after every way of matching \<open>r\<close> at its
  start, in the order in which the backtracking matcher of \<open>re\<close> tries them: alternatives
  from left to right, greedy quantifiers longest first. \<open>re_match\<close> is
  \<open>pattern.match(s)\<close> followed by \<open>m.group()\<close>: the text consumed by the first way.
\<close>

datatype rx = Str string | WsStar | Cat rx rx | Alts "rx list" | Opt rx

fun str_match :: "string \<Rightarrow> string \<Rightarrow> string list" where
  "str_match [] s = [s]"
| "str_match (p # ps) [] = []"
| "str_match (p # ps) (c # cs) = (if c = p then str_match ps cs else [])"

fun ws_star :: "string \<Rightarrow> string list" where
  "ws_star [] = [[]]"
| "ws_star (c # cs) = (if isspace c then ws_star cs @ [c # cs] else [c # cs])"

fun rx_match :: "rx \<Rightarrow> string \<Rightarrow> string list" where
  "rx_match (Str p) s = str_match p s"
| "rx_match WsStar s = ws_star s"
| "rx_match (Cat a b) s = concat (map (rx_match b) (rx_match a s))"
| "rx_match (Alts rs) s = concat (map (\<lambda>r. rx_match r s) rs)"
| "rx_match (Opt r) s = rx_match r s @ [s]"

definition re_match :: "rx \<Rightarrow> string \<Rightarrow> string option" where
  "re_match r s = (case rx_match r s of [] \<Rightarrow> None
                   | rest # _ \<Rightarrow> Some (take (length s - length rest) s))"

text \<open>A literal followed by \<open>\s*\<close>, as in \<open>Mr\.\s*\<close>.\<close>

abbreviation Sp :: "string \<Rightarrow> rx" where
  "Sp p \<equiv> Cat (Str p) WsStar"

definition title_fragments :: "rx list" where
  "title_fragments =
    [Sp ''Mr.'', Sp ''H.R.H.'', Sp ''Mx.'', Str ''St.'', Str ''Miss '', Str ''Mlle '',
     Str ''Mine '', Sp ''H.H.'', Sp ''Ind.'', Str ''His '', Str ''Ind '', Str ''Ms '',
     Str ''Mr '', Str ''Sra '', Str ''Sr '', Str ''M '', Str ''On '', Str ''M '',
     Str ''Fr '', Sp ''H.O.'', Str ''Rev '', Str ''Mme '', Str ''Sr '', Str ''Msgr '',
     Sp ''On.'', Sp ''Fr.'', Sp ''Rev.'',
     Cat (Str ''H.E'') (Opt (Cat (Str ''.'') (Cat WsStar (Alts
       [Sp ''Ms.'', Sp ''Mr.'', Str ''Ms '', Str ''Mr '', Str ''Sra '', Str ''Sr '',
        Sp ''Sra.'', Str ''Mme'', Sp ''Sr.'', Sp ''Msgr.''])))),
     Sp ''Msgr.'', Sp ''Mrs.'', Sp ''Sra.'', Sp ''Sr.'', Sp ''Ms.'', Sp ''Dr.'',
     Sp ''Prof.'', Sp ''M.'', Str ''Mme'', Str ''Ms'',
     Cat (Str ''S.E'') (Opt (Cat (Str ''.'') (Cat WsStar (Alts
       [Sp ''Ms.'', Sp ''Mr.'', Str ''Mme'', Str ''Mr'', Str ''Ms'', Str ''Dr'',
        Sp ''Msgr.'', Sp ''M.'', Str ''Ms '', Str ''Mr '', Str ''Sra '', Str ''Sr '',
        Str ''M '', Sp ''Sra.'', Sp ''Sr.'']))))]"

definition title_match_pattern :: rx where
  "title_match_pattern = Alts title_fragments"

record Record =
  Delegation :: string
  Honorific :: string
  Person_Name :: string
  Affiliation :: string

definition split_honorific_and_person :: "string \<Rightarrow> string \<times> string" where
  "split_honorific_and_person line =
     (let s = strip line in
      case re_match title_match_pattern s of
        Some g \<Rightarrow> (strip g, strip (drop (length g) s))
      | None \<Rightarrow> ('''', s))"


section \<open>Header shape\<close>

definition is_all_caps_header :: "string \<Rightarrow> bool" where
  "is_all_caps_header text =
     (if text = [] then False
      else (let s = strip text in
            s \<noteq> [] \<and> list_all (\<lambda>c. isupper c \<or> c \<in> set '' /'') s))"

section \<open>Tokens, lines and paragraphs\<close>

text \<open>
  Coordinates are Python floats in the source; they are modelled as exact rationals, so
  the rounding of \<open>+\<close>, \<open>-\<close>, \<open>*\<close> and \<open>/\<close> is not represented. Tokens carry every key
  the code reads (\<open>text\<close>, \<open>x0\<close>, \<open>top\<close>, and \<open>fontname\<close> for characters), as the
  extraction library produces them.
\<close>

record pdf_char =
  c_text :: string
  c_x0 :: rat
  c_top :: rat
  c_fontname :: string

record word =
  w_text :: string
  w_x0 :: rat
  w_top :: rat

type_synonym line = "string \<times> rat \<times> rat \<times> bool"
type_synonym line_y = "string \<times> rat \<times> rat"
type_synonym para = "string list \<times> rat \<times> rat"

datatype py_error = IndexError | TypeError | ExtractionError

text \<open>\<open>sub in s\<close> on strings.\<close>

fun contains :: "string \<Rightarrow> string \<Rightarrow> bool" where
  "contains sub [] = (sub = [])"
| "contains sub (c # cs) = (take (length sub) (c # cs) = sub \<or> contains sub cs)"

subsection \<open>\<open>group_chars_to_lines\<close>\<close>

fun chars_loop :: "rat \<Rightarrow> pdf_char list \<Rightarrow> (pdf_char list \<times> rat \<times> rat) list \<Rightarrow>
    pdf_char list \<Rightarrow> rat \<Rightarrow> rat \<Rightarrow> (pdf_char list \<times> rat \<times> rat) list" where
  "chars_loop y_tol [] lines cur y0 y1 = lines @ [(cur, y0, y1)]"
| "chars_loop y_tol (c # cs) lines cur y0 y1 =
     (let top = c_top c in
      if \<bar>top - y1\<bar> \<le> y_tol then chars_loop y_tol cs lines (cur @ [c]) y0 top
      else chars_loop y_tol cs (lines @ [(cur, y0, y1)]) [c] top top)"

definition chars_line :: "pdf_char list \<times> rat \<times> rat \<Rightarrow> line" where
  "chars_line l = (case l of (line_chars, y0, y1) \<Rightarrow>
     (let line_chars = sort_key c_x0 line_chars;
          text = strip (concat (map c_text line_chars));
          is_bold = list_ex (\<lambda>c. contains ''Bold'' (c_fontname c)) line_chars
      in (text, y0, y1, is_bold)))"

definition group_chars_to_lines :: "pdf_char list \<Rightarrow> rat \<Rightarrow> line list" where
  "group_chars_to_lines chars y_tol =
     (if chars = [] then []
      else (let chars = sort_key (\<lambda>c. (c_top c, c_x0 c)) chars;
                c0 = hd chars
            in map chars_line (chars_loop y_tol (tl chars) [] [c0] (c_top c0) (c_top c0))))"

text \<open>
  The copy in \<open>single_column_bold_extract.py\<close> has no guard for an empty list:
  \<open>chars[0]\<close> raises \<open>IndexError\<close> there.
\<close>

definition legacy_group_chars_to_lines :: "pdf_char list \<Rightarrow> rat \<Rightarrow> py_error + line list" where
  "legacy_group_chars_to_lines chars y_tol =
     (case sort_key (\<lambda>c. (c_top c, c_x0 c)) chars of
        [] \<Rightarrow> Inl IndexError
      | c0 # rest \<Rightarrow>
          Inr (map chars_line (chars_loop y_tol rest [] [c0] (c_top c0) (c_top c0))))"

subsection \<open>\<open>group_words_to_lines_with_y\<close>\<close>

definition words_text :: "word list \<Rightarrow> string" where
  "words_text cur = join_space (map w_text (sort_key w_x0 cur))"

fun words_loop :: "rat \<Rightarrow> word list \<Rightarrow> line_y list \<Rightarrow> word list \<Rightarrow> rat \<Rightarrow> rat \<Rightarrow>
    line_y list" where
  "words_loop y_tol [] lines cur y0 y1 = lines @ [(words_text cur, y0, y1)]"
| "words_loop y_tol (w # ws) lines cur y0 y1 =
     (let top = w_top w in
      if \<bar>top - y1\<bar> \<le> y_tol then words_loop y_tol ws lines (cur @ [w]) y0 top
      else words_loop y_tol ws (lines @ [(words_text cur, y0, y1)]) [w] top top)"

definition group_words_to_lines_with_y :: "word list \<Rightarrow> rat \<Rightarrow> line_y list" where
  "group_words_to_lines_with_y words y_tol =
     (if words = [] then []
      else (let words_sorted = sort_key (\<lambda>w. (w_top w, w_x0 w)) words;
                w0 = hd words_sorted
            in words_loop y_tol (tl words_sorted) [] [w0] (w_top w0) (w_top w0)))"

subsection \<open>\<open>collect_paragraphs_with_y\<close>\<close>

definition mids_of :: "line_y list \<Rightarrow> rat list" where
  "mids_of lines_with_y = map (\<lambda>(_, y0, y1). (y0 + y1) / 2) lines_with_y"

definition diffs_of :: "rat list \<Rightarrow> rat list" where
  "diffs_of mids = map (\<lambda>i. mids ! (i + 1) - mids ! i) [0 ..< length mids - 1]"

text \<open>
  \<open>sorted(diffs)[len(diffs) // 2]\<close>, evaluated only when the list \<open>diffs\<close> of the
  source, here \<open>ds\<close>, is not empty.
\<close>

definition median_gap :: "rat list \<Rightarrow> rat" where
  "median_gap ds = sort ds ! (length ds div 2)"

definition para_thresh :: "line_y list \<Rightarrow> rat \<Rightarrow> rat" where
  "para_thresh lines_with_y para_factor = median_gap (diffs_of (mids_of lines_with_y)) * para_factor"

text \<open>
  The scan over \<open>zip(lines_with_y, mids)\<close>, with the loop variables \<open>paras\<close>,
  \<open>cur_lines\<close>, \<open>block_y0\<close>, \<open>block_y1\<close> and \<open>prev_mid\<close> as the state.
\<close>

fun para_loop :: "rat \<Rightarrow> (line_y \<times> rat) list \<Rightarrow> para list \<Rightarrow> string list \<Rightarrow>
    rat option \<Rightarrow> rat option \<Rightarrow> rat option \<Rightarrow> para list \<times> string list \<times> rat option \<times> rat option" where
  "para_loop thresh [] paras cur_lines block_y0 block_y1 prev_mid =
     (paras, cur_lines, block_y0, block_y1)"
| "para_loop thresh (((txt, y0, y1), mid) # rest) paras cur_lines block_y0 block_y1 prev_mid =
     (let (paras, cur_lines, block_y0, block_y1) =
            (if prev_mid \<noteq> None \<and> mid - the prev_mid > thresh \<and> cur_lines \<noteq> []
             then (paras @ [(cur_lines,
                             (case block_y0 of Some b \<Rightarrow> b | None \<Rightarrow> y0),
                             (case block_y1 of Some b \<Rightarrow> b | None \<Rightarrow> y1))],
                   [], None, None)
             else (paras, cur_lines, block_y0, block_y1));
          block_y0 = (if cur_lines = [] then Some y0 else block_y0)
      in para_loop thresh rest paras (cur_lines @ [txt]) block_y0 (Some y1) (Some mid))"

definition collect_paragraphs_with_y :: "line_y list \<Rightarrow> rat \<Rightarrow> para list" where
  "collect_paragraphs_with_y lines_with_y para_factor =
     (if lines_with_y = [] then []
      else (let mids = mids_of lines_with_y; ds = diffs_of mids in
            if ds = [] then
              (case hd lines_with_y of (txt, y0, y1) \<Rightarrow> [([txt], y0, y1)])
            else
              (let thresh = para_thresh lines_with_y para_factor in
               case para_loop thresh (zip lines_with_y mids) [] [] None None None of
                 (paras, cur_lines, block_y0, block_y1) \<Rightarrow>
                   if cur_lines \<noteq> []
                   then paras @ [(cur_lines,
                                  (case block_y0 of Some b \<Rightarrow> b | None \<Rightarrow> 0),
                                  (case block_y1 of Some b \<Rightarrow> b | None \<Rightarrow> 0))]
                   else paras)))"

subsection \<open>The copy of \<open>collect_paragraphs_with_y\<close> in \<open>two_columns_file_extract.py\<close>\<close>

text \<open>
  The older copy has no early return for a single line (the reference spacing is then 0)
  and stores \<open>block_y0\<close> and \<open>block_y1\<close> as they are, \<open>None\<close> included.
\<close>

type_synonym legacy_para = "string list \<times> rat option \<times> rat option"

fun legacy_para_loop :: "rat \<Rightarrow> (line_y \<times> rat) list \<Rightarrow> legacy_para list \<Rightarrow> string list \<Rightarrow>
    rat option \<Rightarrow> rat option \<Rightarrow> rat option \<Rightarrow>
    legacy_para list \<times> string list \<times> rat option \<times> rat option" where
  "legacy_para_loop thresh [] paras cur_lines block_y0 block_y1 prev_mid =
     (paras, cur_lines, block_y0, block_y1)"
| "legacy_para_loop thresh (((txt, y0, y1), mid) # rest) paras cur_lines block_y0 block_y1 prev_mid =
     (let (paras, cur_lines, block_y0, block_y1) =
            (if prev_mid \<noteq> None \<and> mid - the prev_mid > thresh \<and> cur_lines \<noteq> []
             then (paras @ [(cur_lines, block_y0, block_y1)], [], None, None)
             else (paras, cur_lines, block_y0, block_y1));
          block_y0 = (if cur_lines = [] then Some y0 else block_y0)
      in legacy_para_loop thresh rest paras (cur_lines @ [txt]) block_y0 (Some y1) (Some mid))"

definition legacy_collect_paragraphs_with_y :: "line_y list \<Rightarrow> rat \<Rightarrow> legacy_para list" where
  "legacy_collect_paragraphs_with_y lines_with_y para_factor =
     (if lines_with_y = [] then []
      else (let mids = mids_of lines_with_y;
                ds = diffs_of mids;
                median_gap = (if ds \<noteq> [] then sort ds ! (length ds div 2) else 0);
                thresh = median_gap * para_factor
            in case legacy_para_loop thresh (zip lines_with_y mids) [] [] None None None of
                 (paras, cur_lines, block_y0, block_y1) \<Rightarrow>
                   if cur_lines \<noteq> [] then paras @ [(cur_lines, block_y0, block_y1)] else paras))"

section \<open>Single-column assembler\<close>

text \<open>
  The inner \<open>while\<close> of \<open>extract_singlecol_textpdf\<close>: it appends the stripped text of
  the lines from index \<open>i\<close> on while they are neither bold nor blank, and returns the
  list with the index at which it stopped.
\<close>

function affiliation_loop :: "line list \<Rightarrow> nat \<Rightarrow> string list \<Rightarrow> string list \<times> nat" where
  "affiliation_loop lines i affiliation_lines =
     (if i < length lines \<and> \<not> snd (snd (snd (lines ! i))) \<and> strip (fst (lines ! i)) \<noteq> []
      then affiliation_loop lines (i + 1) (affiliation_lines @ [strip (fst (lines ! i))])
      else (affiliation_lines, i))"
  by pat_completeness auto
termination
  by (relation "measure (\<lambda>(lines, i, acc). length lines - i)") auto

declare affiliation_loop.simps [simp del]

lemma affiliation_loop_index: "i \<le> snd (affiliation_loop lines i acc)"
proof (induction lines i acc rule: affiliation_loop.induct)
  case (1 lines i acc)
  show ?case
  proof (cases "i < length lines \<and> \<not> snd (snd (snd (lines ! i))) \<and> strip (fst (lines ! i)) \<noteq> []")
    case True
    with 1 have "i + 1 \<le> snd (affiliation_loop lines (i + 1) (acc @ [strip (fst (lines ! i))]))"
      by blast
    with True show ?thesis
      by (subst affiliation_loop.simps) simp
  next
    case False
    then show ?thesis
      by (subst affiliation_loop.simps) auto
  qed
qed

lemma affiliation_loop_result: "(affs, j) = affiliation_loop lines k acc \<Longrightarrow> k \<le> j"
  using affiliation_loop_index [of k lines acc] by (cases "affiliation_loop lines k acc") simp

text \<open>
  The outer \<open>while\<close> over one page. \<open>current_delegation\<close> is \<open>None\<close> or a string, and
  Python treats both \<open>None\<close> and the empty string as false.
\<close>

definition truthy :: "string option \<Rightarrow> bool" where
  "truthy d = (case d of None \<Rightarrow> False | Some t \<Rightarrow> t \<noteq> [])"

function singlecol_loop :: "line list \<Rightarrow> nat \<Rightarrow> string option \<Rightarrow> Record list \<Rightarrow> Record list" where
  "singlecol_loop lines i current_delegation records =
     (if i < length lines then
        (case lines ! i of (text, _, _, is_bold) \<Rightarrow>
           if is_bold \<and> text \<noteq> [] then
             singlecol_loop lines (i + 1) (Some (strip (split_slash_first text))) records
           else if truthy current_delegation \<and> text \<noteq> [] then
             (case split_honorific_and_person text of (honorific, person) \<Rightarrow>
                (case affiliation_loop lines (i + 1) [] of (affiliation_lines, j) \<Rightarrow>
                   singlecol_loop lines j current_delegation
                     (records @ [\<lparr>Delegation = the current_delegation,
                                   Honorific = honorific,
                                   Person_Name = person,
                                   Affiliation = strip (join_space affiliation_lines)\<rparr>])))
           else singlecol_loop lines (i + 1) current_delegation records)
      else records)"
  by pat_completeness auto
termination
  apply (relation "measure (\<lambda>(lines, i, d, rs). length lines - i)")
  subgoal by simp
  subgoal by simp
  subgoal by (auto dest!: affiliation_loop_result)
  subgoal by simp
  done

declare singlecol_loop.simps [simp del]

text \<open>A document is the list of its pages, each page the characters the library yields.\<close>

fun extract_singlecol_pages :: "pdf_char list list \<Rightarrow> Record list \<Rightarrow> Record list" where
  "extract_singlecol_pages [] records = records"
| "extract_singlecol_pages (page_chars # pages) records =
     (let lines = group_chars_to_lines page_chars 3
      in extract_singlecol_pages pages (singlecol_loop lines 0 None records))"

definition extract_singlecol_textpdf :: "pdf_char list list \<Rightarrow> Record list" where
  "extract_singlecol_textpdf pages = extract_singlecol_pages pages []"

subsection \<open>The script \<open>single_column_bold_extract.py\<close>\<close>

record legacy_record =
  L_Delegation :: string
  L_Person_Name :: string
  L_Affiliation :: string

function legacy_affiliation_loop :: "line list \<Rightarrow> nat \<Rightarrow> string list \<Rightarrow> string list \<times> nat" where
  "legacy_affiliation_loop lines i affiliation_lines =
     (if i < length lines \<and> \<not> snd (snd (snd (lines ! i))) \<and> strip (fst (lines ! i)) \<noteq> []
      then legacy_affiliation_loop lines (i + 1) (affiliation_lines @ [fst (lines ! i)])
      else (affiliation_lines, i))"
  by pat_completeness auto
termination
  by (relation "measure (\<lambda>(lines, i, acc). length lines - i)") auto

declare legacy_affiliation_loop.simps [simp del]

lemma legacy_affiliation_loop_index: "i \<le> snd (legacy_affiliation_loop lines i acc)"
proof (induction lines i acc rule: legacy_affiliation_loop.induct)
  case (1 lines i acc)
  show ?case
  proof (cases "i < length lines \<and> \<not> snd (snd (snd (lines ! i))) \<and> strip (fst (lines ! i)) \<noteq> []")
    case True
    with 1 have "i + 1 \<le> snd (legacy_affiliation_loop lines (i + 1) (acc @ [fst (lines ! i)]))"
      by blast
    with True show ?thesis
      by (subst legacy_affiliation_loop.simps) simp
  next
    case False
    then show ?thesis
      by (subst legacy_affiliation_loop.simps) auto
  qed
qed

lemma legacy_affiliation_loop_result:
  "(affs, j) = legacy_affiliation_loop lines k acc \<Longrightarrow> k \<le> j"
  using legacy_affiliation_loop_index [of k lines acc]
  by (cases "legacy_affiliation_loop lines k acc") simp

function legacy_loop :: "line list \<Rightarrow> nat \<Rightarrow> string option \<Rightarrow> legacy_record list \<Rightarrow>
    legacy_record list" where
  "legacy_loop lines i delegation records =
     (if i < length lines then
        (case lines ! i of (text, _, _, is_bold) \<Rightarrow>
           if is_bold \<and> text \<noteq> [] then
             legacy_loop lines (i + 1) (Some (strip (split_slash_first text))) records
           else if truthy delegation \<and> text \<noteq> [] then
             (case legacy_affiliation_loop lines (i + 1) [] of (affiliation_lines, j) \<Rightarrow>
                legacy_loop lines j delegation
                  (records @ [\<lparr>L_Delegation = the delegation,
                                L_Person_Name = text,
                                L_Affiliation = strip (join_space affiliation_lines)\<rparr>]))
           else legacy_loop lines (i + 1) delegation records)
      else records)"
  by pat_completeness auto
termination
  apply (relation "measure (\<lambda>(lines, i, d, rs). length lines - i)")
  subgoal by simp
  subgoal by simp
  subgoal by (auto dest!: legacy_affiliation_loop_result)
  subgoal by simp
  done

declare legacy_loop.simps [simp del]

text \<open>An exception of \<open>group_chars_to_lines\<close> is not caught: it ends the whole run.\<close>

fun extract_delegation_pages :: "pdf_char list list \<Rightarrow> legacy_record list \<Rightarrow>
    py_error + legacy_record list" where
  "extract_delegation_pages [] records = Inr records"
| "extract_delegation_pages (page_chars # pages) records =
     (case legacy_group_chars_to_lines page_chars 3 of
        Inl e \<Rightarrow> Inl e
      | Inr lines \<Rightarrow> extract_delegation_pages pages (legacy_loop lines 0 None records))"

definition extract_delegation_records :: "pdf_char list list \<Rightarrow> py_error + legacy_record list" where
  "extract_delegation_records pages = extract_delegation_pages pages []"

section \<open>Two-column assembler\<close>

text \<open>The loop that builds \<open>headers\<close> from the paragraphs of the whole page.\<close>

fun headers_loop :: "para list \<Rightarrow> (rat \<times> string) list \<Rightarrow> (rat \<times> string) list" where
  "headers_loop [] headers = headers"
| "headers_loop ((blk, y0, y1) # rest) headers =
     (if length blk = 1 \<and> is_all_caps_header (blk ! 0)
      then (let nm = strip (split_slash_first (blk ! 0));
                mid = (y0 + y1) / 2
            in headers_loop rest (headers @ [(mid, nm)]))
      else headers_loop rest headers)"

text \<open>\<open>headers.sort(key=lambda x: x[0])\<close> is a stable sort on the midpoint.\<close>

definition detect_headers :: "para list \<Rightarrow> (rat \<times> string) list" where
  "detect_headers full_paras = sort_key fst (headers_loop full_paras [])"

text \<open>The scan of \<open>header_for_mid\<close>, with its \<open>break\<close> at the first header below.\<close>

fun header_scan :: "(rat \<times> string) list \<Rightarrow> rat \<Rightarrow> string option \<Rightarrow> string option" where
  "header_scan [] mid ans = ans"
| "header_scan ((m, name) # rest) mid ans =
     (if m \<le> mid then header_scan rest mid (Some name) else ans)"

definition header_for_mid :: "(rat \<times> string) list \<Rightarrow> rat \<Rightarrow> string option" where
  "header_for_mid headers mid = header_scan headers mid None"

text \<open>\<open>x or ""\<close> for an optional string.\<close>

definition or_empty :: "string option \<Rightarrow> string" where
  "or_empty d = (case d of None \<Rightarrow> [] | Some t \<Rightarrow> (if t = [] then [] else t))"

text \<open>The loop over the paragraphs of one column, appending to \<open>records\<close>.\<close>

fun column_loop :: "(rat \<times> string) list \<Rightarrow> para list \<Rightarrow> Record list \<Rightarrow> Record list" where
  "column_loop headers [] records = records"
| "column_loop headers ((blk, y0, y1) # rest) records =
     (if length blk = 1 \<and> is_all_caps_header (blk ! 0) then column_loop headers rest records
      else if blk = [] then column_loop headers rest records
      else (let name_line = strip (hd blk) in
            case split_honorific_and_person name_line of (honorific, person) \<Rightarrow>
              (let affiliation = strip (join_space (map strip (tl blk)));
                   mid = (y0 + y1) / 2;
                   delegation = or_empty (header_for_mid headers mid)
               in column_loop headers rest
                    (records @ [\<lparr>Delegation = delegation,
                                  Honorific = honorific,
                                  Person_Name = person,
                                  Affiliation = affiliation\<rparr>]))))"

definition page_headers :: "word list \<Rightarrow> (rat \<times> string) list" where
  "page_headers words =
     (let full_lines = group_words_to_lines_with_y words 3;
          full_paras = collect_paragraphs_with_y full_lines (3 / 2)
      in detect_headers full_paras)"

definition left_words :: "word list \<Rightarrow> rat \<Rightarrow> word list" where
  "left_words words x0_thresh =
     sort_key (\<lambda>w. (w_top w, w_x0 w)) (filter (\<lambda>w. w_x0 w < x0_thresh) words)"

definition right_words :: "word list \<Rightarrow> rat \<Rightarrow> word list" where
  "right_words words x0_thresh =
     sort_key (\<lambda>w. (w_top w, w_x0 w)) (filter (\<lambda>w. w_x0 w \<ge> x0_thresh) words)"

definition column_paras :: "word list \<Rightarrow> para list" where
  "column_paras col_words =
     (let lined = group_words_to_lines_with_y col_words 3
      in collect_paragraphs_with_y lined (3 / 2))"

definition twocol_records_from_words :: "word list \<Rightarrow> rat \<Rightarrow> Record list" where
  "twocol_records_from_words words x0_thresh =
     (let headers = page_headers words;
          records = column_loop headers (column_paras (left_words words x0_thresh)) []
      in column_loop headers (column_paras (right_words words x0_thresh)) records)"

text \<open>
  \<open>extract_twocol_textpdf\<close>: a page is what \<open>page.extract_words()\<close> returns, a list
  or \<open>None\<close>; \<open>or []\<close> turns \<open>None\<close> into the empty list, and a page without words is
  skipped.
\<close>

definition or_nil :: "'a list option \<Rightarrow> 'a list" where
  "or_nil r = (case r of None \<Rightarrow> [] | Some ws \<Rightarrow> ws)"

fun extract_twocol_pages :: "word list option list \<Rightarrow> rat \<Rightarrow> Record list \<Rightarrow> Record list" where
  "extract_twocol_pages [] x0_thresh out = out"
| "extract_twocol_pages (page # pages) x0_thresh out =
     (let words = or_nil page in
      if words = [] then extract_twocol_pages pages x0_thresh out
      else extract_twocol_pages pages x0_thresh (out @ twocol_records_from_words words x0_thresh))"

definition extract_twocol_textpdf :: "word list option list \<Rightarrow> rat \<Rightarrow> Record list" where
  "extract_twocol_textpdf pages x0_thresh = extract_twocol_pages pages x0_thresh []"

subsection \<open>The script \<open>two_columns_file_extract.py\<close>\<close>

text \<open>
  The older two-column script. Its \<open>group_words_to_lines_with_y\<close> does not sort (the
  caller does), \<open>is_delegation\<close> is its header test, and \<open>find_delegation\<close> is the scan of
  \<open>header_for_mid\<close>, whose result is stored as it is. Its honorific pattern is imported
  from a module \<open>inputs_file\<close> that is not among the sources: the pattern is the parameter
  \<open>pat\<close>. Arithmetic on a bound that is \<open>None\<close> raises \<open>TypeError\<close>, and \<open>blk[0]\<close> on an
  empty block raises \<open>IndexError\<close>.
\<close>

record twocol_legacy_record =
  T_Delegation :: "string option"
  T_Honorific :: string
  T_Person_Name :: string
  T_Affiliation :: string

definition legacy_group_words_to_lines_with_y :: "word list \<Rightarrow> rat \<Rightarrow> line_y list" where
  "legacy_group_words_to_lines_with_y words y_tol =
     (if words = [] then []
      else (let w0 = hd words
            in words_loop y_tol (tl words) [] [w0] (w_top w0) (w_top w0)))"

definition is_delegation :: "string \<Rightarrow> bool" where
  "is_delegation t = (let s = strip t in
                      s \<noteq> [] \<and> list_all (\<lambda>c. isupper c \<or> c \<in> set '' /'') s)"

fun legacy_headers_loop :: "legacy_para list \<Rightarrow> (rat \<times> string) list \<Rightarrow>
    py_error + (rat \<times> string) list" where
  "legacy_headers_loop [] headers = Inr headers"
| "legacy_headers_loop ((blk, y0, y1) # rest) headers =
     (if length blk = 1 \<and> is_delegation (blk ! 0)
      then (let name = strip (split_slash_first (blk ! 0)) in
            case (y0, y1) of
              (Some a, Some b) \<Rightarrow> legacy_headers_loop rest (headers @ [((a + b) / 2, name)])
            | _ \<Rightarrow> Inl TypeError)
      else legacy_headers_loop rest headers)"

definition find_delegation :: "(rat \<times> string) list \<Rightarrow> rat \<Rightarrow> string option" where
  "find_delegation headers block_mid = header_scan headers block_mid None"

fun legacy_column_loop :: "rx \<Rightarrow> (rat \<times> string) list \<Rightarrow> legacy_para list \<Rightarrow>
    twocol_legacy_record list \<Rightarrow> py_error + twocol_legacy_record list" where
  "legacy_column_loop pat headers [] records = Inr records"
| "legacy_column_loop pat headers ((blk, y0, y1) # rest) records =
     (if length blk = 1 \<and> is_delegation (blk ! 0) then legacy_column_loop pat headers rest records
      else (case blk of
              [] \<Rightarrow> Inl IndexError
            | first # others \<Rightarrow>
                (let name_line = strip first;
                     (honorific, person) =
                       (case re_match pat name_line of
                          Some g \<Rightarrow> (strip g, strip (drop (length g) name_line))
                        | None \<Rightarrow> ('''', name_line));
                     affiliation = strip (join_space others)
                 in case (y0, y1) of
                      (Some a, Some b) \<Rightarrow>
                        (let block_mid = (a + b) / 2;
                             delegation = find_delegation headers block_mid
                         in legacy_column_loop pat headers rest
                              (records @ [\<lparr>T_Delegation = delegation,
                                            T_Honorific = honorific,
                                            T_Person_Name = person,
                                            T_Affiliation = affiliation\<rparr>]))
                    | _ \<Rightarrow> Inl TypeError)))"

text \<open>The body of the page loop of \<open>extract_by_blank_lines\<close>.\<close>

definition extract_by_blank_page :: "rx \<Rightarrow> word list \<Rightarrow> rat \<Rightarrow> twocol_legacy_record list \<Rightarrow>
    py_error + twocol_legacy_record list" where
  "extract_by_blank_page pat words x0_thresh records =
     (let full_lines = sort_key (\<lambda>w. (w_top w, w_x0 w)) words;
          full_lined = legacy_group_words_to_lines_with_y full_lines 3;
          full_paras = legacy_collect_paragraphs_with_y full_lined (3 / 2)
      in case legacy_headers_loop full_paras [] of
           Inl e \<Rightarrow> Inl e
         | Inr headers \<Rightarrow>
             (let headers = sort_key fst headers;
                  left_words = sort_key (\<lambda>w. (w_top w, w_x0 w))
                                 (filter (\<lambda>w. w_x0 w < x0_thresh) words);
                  right_words = sort_key (\<lambda>w. (w_top w, w_x0 w))
                                  (filter (\<lambda>w. w_x0 w \<ge> x0_thresh) words);
                  left_lined = legacy_group_words_to_lines_with_y left_words 3;
                  right_lined = legacy_group_words_to_lines_with_y right_words 3;
                  left_paras = legacy_collect_paragraphs_with_y left_lined (3 / 2);
                  right_paras = legacy_collect_paragraphs_with_y right_lined (3 / 2)
              in case legacy_column_loop pat headers left_paras records of
                   Inl e \<Rightarrow> Inl e
                 | Inr records \<Rightarrow> legacy_column_loop pat headers right_paras records))"

fun extract_by_blank_pages :: "rx \<Rightarrow> word list list \<Rightarrow> rat \<Rightarrow> twocol_legacy_record list \<Rightarrow>
    py_error + twocol_legacy_record list" where
  "extract_by_blank_pages pat [] x0_thresh records = Inr records"
| "extract_by_blank_pages pat (words # pages) x0_thresh records =
     (case extract_by_blank_page pat words x0_thresh records of
        Inl e \<Rightarrow> Inl e
      | Inr records \<Rightarrow> extract_by_blank_pages pat pages x0_thresh records)"

definition extract_by_blank_lines :: "rx \<Rightarrow> word list list \<Rightarrow> rat \<Rightarrow>
    py_error + twocol_legacy_record list" where
  "extract_by_blank_lines pat pages x0_thresh = extract_by_blank_pages pat pages x0_thresh []"

text \<open>The record that the older column loop appends for a paragraph it does not skip.\<close>

definition legacy_para_record :: "rx \<Rightarrow> (rat \<times> string) list \<Rightarrow> para \<Rightarrow> twocol_legacy_record" where
  "legacy_para_record pat headers p = (case p of (blk, y0, y1) \<Rightarrow>
     \<lparr>T_Delegation = find_delegation headers ((y0 + y1) / 2),
      T_Honorific = (case re_match pat (strip (hd blk)) of Some g \<Rightarrow> strip g | None \<Rightarrow> []),
      T_Person_Name = (case re_match pat (strip (hd blk)) of
                         Some g \<Rightarrow> strip (drop (length g) (strip (hd blk)))
                       | None \<Rightarrow> strip (hd blk)),
      T_Affiliation = strip (join_space (tl blk))\<rparr>)"

section \<open>Layout detection\<close>

text \<open>
  An external call either raises or returns. For \<open>detect_layout_quick\<close> a document is
  the outcome of \<open>pdfplumber.open\<close>: it raises, or it returns the pages, each of which
  is the outcome of \<open>page.extract_words()\<close>. The counts are natural numbers and the
  quotients \<open>left / total\<close> and \<open>right / total\<close> are exact.
\<close>

datatype 'a attempt = Raises | Returns 'a

type_synonym page = "word list option attempt"

fun detect_pages :: "page list \<Rightarrow> rat \<Rightarrow> py_error + string" where
  "detect_pages [] x0_thresh = Inr ''one''"
| "detect_pages (Raises # pages) x0_thresh = Inl ExtractionError"
| "detect_pages (Returns r # pages) x0_thresh =
     (let words = or_nil r in
      if words = [] then detect_pages pages x0_thresh
      else (let left = length (filter (\<lambda>w. w_x0 w < x0_thresh) words);
                right = length (filter (\<lambda>w. w_x0 w \<ge> x0_thresh) words);
                total = left + right
            in if total = 0 then detect_pages pages x0_thresh
               else if (of_nat left :: rat) / of_nat total \<ge> 1 / 4
                     \<and> (of_nat right :: rat) / of_nat total \<ge> 1 / 4
               then Inr ''two''
               else detect_pages pages x0_thresh))"

text \<open>The \<open>try\<close> encloses the whole scan: any exception gives \<open>"one"\<close>.\<close>

definition detect_layout_quick :: "page list attempt \<Rightarrow> rat \<Rightarrow> string" where
  "detect_layout_quick pdf x0_thresh =
     (case pdf of
        Raises \<Rightarrow> ''one''
      | Returns pages \<Rightarrow>
          (case detect_pages (take 2 pages) x0_thresh of
             Inl e \<Rightarrow> ''one''
           | Inr mode \<Rightarrow> mode))"

text \<open>Two sample tokens, one on each side of the default threshold 260.\<close>

definition left_token :: word where
  "left_token = \<lparr>w_text = ''a'', w_x0 = 100, w_top = 10\<rparr>"

definition right_token :: word where
  "right_token = \<lparr>w_text = ''b'', w_x0 = 300, w_top = 10\<rparr>"

text \<open>Three sample lines whose midpoints are 0, 1 and 4: the gaps are 1 and 3.\<close>

definition three_lines :: "line_y list" where
  "three_lines = [(''a'', 0, 0), (''b'', 1, 1), (''c'', 4, 4)]"

text \<open>
  The two parts of the body of the column loop: the test of its first \<open>continue\<close>, and
  the record it appends for a paragraph that is not skipped.
\<close>

definition is_pure_header :: "para \<Rightarrow> bool" where
  "is_pure_header p = (case p of (blk, y0, y1) \<Rightarrow> length blk = 1 \<and> is_all_caps_header (blk ! 0))"

definition para_record :: "(rat \<times> string) list \<Rightarrow> para \<Rightarrow> Record" where
  "para_record headers p = (case p of (blk, y0, y1) \<Rightarrow>
     \<lparr>Delegation = or_empty (header_for_mid headers ((y0 + y1) / 2)),
      Honorific = fst (split_honorific_and_person (strip (hd blk))),
      Person_Name = snd (split_honorific_and_person (strip (hd blk))),
      Affiliation = strip (join_space (map strip (tl blk)))\<rparr>)"

text \<open>
  Sample pages of word tokens. \<open>sample_page\<close> has a three-line person block above the
  header \<open>ARGENTINA\<close>; \<open>m_page\<close> and \<open>caps_page\<close> each hold one two-line block whose
  first line is header-shaped.
\<close>

definition sample_page :: "word list" where
  "sample_page =
     [\<lparr>w_text = ''Jane'', w_x0 = 50, w_top = 10\<rparr>, \<lparr>w_text = ''Roe'', w_x0 = 80, w_top = 10\<rparr>,
      \<lparr>w_text = ''Dept.'', w_x0 = 50, w_top = 22\<rparr>, \<lparr>w_text = ''Wildlife'', w_x0 = 50, w_top = 34\<rparr>,
      \<lparr>w_text = ''ARGENTINA'', w_x0 = 50, w_top = 100\<rparr>]"




section \<open>Auxiliary notions for the proofs\<close>



text \<open>A paragraph of the newer copy as the older copy stores it.\<close>

definition with_bounds :: "para \<Rightarrow> legacy_para" where
  "with_bounds p = (case p of (blk, y0, y1) \<Rightarrow> (blk, Some y0, Some y1))"

section \<open>Evaluation rules\<close>

lemmas text_defs = strip_def isspace_def split_slash_first_def
lemmas pattern_defs = re_match_def title_match_pattern_def title_fragments_def

section \<open>Honorific parsing\<close>

lemma rx_match_Alts_empty: "rx_match (Alts rs) s = [] \<longleftrightarrow> (\<forall>r\<in>set rs. rx_match r s = [])"
  by (induction rs) auto

text \<open>
  Claim C7. \<open>"Mr. John Smith"\<close> is split into the honorific \<open>"Mr."\<close> and the person
  \<open>"John Smith"\<close>; \<open>"John Smith"\<close> has no honorific; and every trimmed line at whose
  start no fragment of the ordered list matches is returned whole, with an empty honorific.
\<close>

theorem honorific_parsing:
  "split_honorific_and_person ''Mr. John Smith'' = (''Mr.'', ''John Smith'')
   \<and> split_honorific_and_person ''John Smith'' = ('''', ''John Smith'')
   \<and> (\<forall>line. strip line = line \<and> (\<forall>r\<in>set title_fragments. rx_match r line = [])
          \<longrightarrow> split_honorific_and_person line = ('''', line))"
proof (intro conjI allI impI)
  show "split_honorific_and_person ''Mr. John Smith'' = (''Mr.'', ''John Smith'')"
    by (simp add: split_honorific_and_person_def text_defs pattern_defs)
  show "split_honorific_and_person ''John Smith'' = ('''', ''John Smith'')"
    by (simp add: split_honorific_and_person_def text_defs pattern_defs)
next
  fix line
  assume h: "strip line = line \<and> (\<forall>r\<in>set title_fragments. rx_match r line = [])"
  then have "rx_match title_match_pattern line = []"
    unfolding title_match_pattern_def using rx_match_Alts_empty by blast
  with h show "split_honorific_and_person line = ('''', line)"
    by (simp add: split_honorific_and_person_def re_match_def)
qed

theorem honorific_parsing_witness:
  "strip ''Jane Roe'' = ''Jane Roe''
   \<and> list_all (\<lambda>r. rx_match r ''Jane Roe'' = []) title_fragments
   \<and> split_honorific_and_person ''Jane Roe'' = ('''', ''Jane Roe'')"
proof -
  have a: "strip ''Jane Roe'' = ''Jane Roe''"
    by (simp add: text_defs)
  have b: "list_all (\<lambda>r. rx_match r ''Jane Roe'' = []) title_fragments"
    by (simp add: title_fragments_def)
  then have "\<forall>r\<in>set title_fragments. rx_match r ''Jane Roe'' = []"
    by (simp only: list_all_iff)
  with a honorific_parsing have "split_honorific_and_person ''Jane Roe'' = ('''', ''Jane Roe'')"
    by blast
  with a b show ?thesis by blast
qed

section \<open>Single-column scenario\<close>

text \<open>
  The statement of claim C1 fails for \<open>single_column_bold_extract.py\<close>, the second
  single-column assembler: it has no honorific parser, its record has three fields, and
  the person name is the whole line \<open>Mr. John Doe\<close>.
\<close>

theorem legacy_singlecol_counterexample:
  "legacy_loop [(''BAHAMAS'', 0, 0, True), (''Mr. John Doe'', 12, 12, False),
                (''Ministry of Environment'', 24, 24, False), ('''', 36, 36, False)] 0 None []
   = [\<lparr>L_Delegation = ''BAHAMAS'', L_Person_Name = ''Mr. John Doe'',
        L_Affiliation = ''Ministry of Environment''\<rparr>]"
  by (simp add: legacy_loop.simps legacy_affiliation_loop.simps truthy_def text_defs)

text \<open>
  Claim C1, amended. On the lines \<open>BAHAMAS\<close> (bold), \<open>Mr. John Doe\<close>,
  \<open>Ministry of Environment\<close> and a blank line, with no delegation active before, each of
  the two single-column walks emits exactly one record, whatever the vertical positions of
  the lines and the weight of the blank one: the bold line sets the delegation, the lines
  after the name line are joined as the affiliation, and the blank line ends the record.
  The walk of \<open>extract_pdf_data.py\<close> splits the name line into the honorific \<open>Mr.\<close> and
  the person \<open>John Doe\<close>; the walk of \<open>single_column_bold_extract.py\<close> keeps the name
  line whole and has no honorific field.
\<close>

theorem singlecol_scenario_both_scripts:
  "singlecol_loop [(''BAHAMAS'', a0, a1, True), (''Mr. John Doe'', b0, b1, False),
                   (''Ministry of Environment'', c0, c1, False), ('''', d0, d1, bl)] 0 None []
   = [\<lparr>Delegation = ''BAHAMAS'', Honorific = ''Mr.'', Person_Name = ''John Doe'',
        Affiliation = ''Ministry of Environment''\<rparr>]
   \<and> legacy_loop [(''BAHAMAS'', a0, a1, True), (''Mr. John Doe'', b0, b1, False),
                   (''Ministry of Environment'', c0, c1, False), ('''', d0, d1, bl)] 0 None []
   = [\<lparr>L_Delegation = ''BAHAMAS'', L_Person_Name = ''Mr. John Doe'',
        L_Affiliation = ''Ministry of Environment''\<rparr>]"
proof
  show "singlecol_loop [(''BAHAMAS'', a0, a1, True), (''Mr. John Doe'', b0, b1, False),
                   (''Ministry of Environment'', c0, c1, False), ('''', d0, d1, bl)] 0 None []
   = [\<lparr>Delegation = ''BAHAMAS'', Honorific = ''Mr.'', Person_Name = ''John Doe'',
        Affiliation = ''Ministry of Environment''\<rparr>]"
    by (simp add: singlecol_loop.simps affiliation_loop.simps truthy_def
        split_honorific_and_person_def text_defs pattern_defs)
  show "legacy_loop [(''BAHAMAS'', a0, a1, True), (''Mr. John Doe'', b0, b1, False),
                   (''Ministry of Environment'', c0, c1, False), ('''', d0, d1, bl)] 0 None []
   = [\<lparr>L_Delegation = ''BAHAMAS'', L_Person_Name = ''Mr. John Doe'',
        L_Affiliation = ''Ministry of Environment''\<rparr>]"
    by (simp add: legacy_loop.simps legacy_affiliation_loop.simps truthy_def text_defs)
qed

section \<open>Header classification\<close>

lemma is_all_caps_header_iff:
  "is_all_caps_header text \<longleftrightarrow>
     strip text \<noteq> [] \<and> (\<forall>c\<in>set (strip text). isupper c \<or> c = CHR '' '' \<or> c = CHR ''/'')"
proof (cases "text = []")
  case True
  then show ?thesis by (simp add: is_all_caps_header_def strip_def)
next
  case False
  then show ?thesis by (auto simp: is_all_caps_header_def Let_def list_all_iff)
qed

text \<open>
  Claim C4. A text is header-shaped exactly when its trimmed form is not empty and consists
  of uppercase letters, spaces and slashes; a paragraph made of the single line
  \<open>SWITZERLAND / SUISSE / SUIZA\<close> gives one header, named \<open>SWITZERLAND\<close>.
\<close>

theorem header_classification:
  "(\<forall>text. is_all_caps_header text \<longleftrightarrow>
       strip text \<noteq> [] \<and> (\<forall>c\<in>set (strip text). isupper c \<or> c = CHR '' '' \<or> c = CHR ''/''))
   \<and> (\<forall>y0 y1. detect_headers [([''SWITZERLAND / SUISSE / SUIZA''], y0, y1)]
                 = [((y0 + y1) / 2, ''SWITZERLAND'')])"
proof (intro conjI allI)
  fix s
  show "is_all_caps_header s \<longleftrightarrow>
       strip s \<noteq> [] \<and> (\<forall>c\<in>set (strip s). isupper c \<or> c = CHR '' '' \<or> c = CHR ''/'')"
    by (rule is_all_caps_header_iff)
next
  fix y0 y1 :: rat
  have "is_all_caps_header ''SWITZERLAND / SUISSE / SUIZA''"
    by (simp add: is_all_caps_header_def text_defs isupper_def)
  moreover have "strip (split_slash_first ''SWITZERLAND / SUISSE / SUIZA'') = ''SWITZERLAND''"
    by (simp add: text_defs)
  ultimately show "detect_headers [([''SWITZERLAND / SUISSE / SUIZA''], y0, y1)]
                 = [((y0 + y1) / 2, ''SWITZERLAND'')]"
    by (simp add: detect_headers_def)
qed

theorem header_classification_witness:
  "strip ''BAHAMAS'' \<noteq> [] \<and> list_all (\<lambda>c. isupper c \<or> c = CHR '' '' \<or> c = CHR ''/'') (strip ''BAHAMAS'')
   \<and> is_all_caps_header ''BAHAMAS'' \<and> \<not> is_all_caps_header ''Bahamas''"
proof -
  have s: "strip ''BAHAMAS'' = ''BAHAMAS''" "strip ''Bahamas'' = ''Bahamas''"
    by (simp_all add: text_defs)
  have a: "list_all (\<lambda>c. isupper c \<or> c = CHR '' '' \<or> c = CHR ''/'') (strip ''BAHAMAS'')"
    unfolding s by (simp add: isupper_def)
  have b: "\<not> list_all (\<lambda>c. isupper c \<or> c = CHR '' '' \<or> c = CHR ''/'') (strip ''Bahamas'')"
    unfolding s by (simp add: isupper_def)
  from a b header_classification show ?thesis
    unfolding list_all_iff using s by auto
qed

section \<open>The rule of the layout detector\<close>

lemma count_split:
  "length (filter (\<lambda>w. w_x0 w < th) ws) + length (filter (\<lambda>w. w_x0 w \<ge> th) ws) = length ws"
  by (induction ws) auto

lemma quarter_share:
  fixes k n :: nat
  assumes "0 < n"
  shows "(of_nat k :: rat) / of_nat n \<ge> 1 / 4 \<longleftrightarrow> n \<le> 4 * k"
proof -
  have "(of_nat k :: rat) / of_nat n \<ge> 1 / 4 \<longleftrightarrow> (of_nat n :: rat) \<le> 4 * of_nat k"
    using assms by (simp add: field_simps)
  also have "\<dots> \<longleftrightarrow> (of_nat n :: rat) \<le> of_nat (4 * k)"
    by simp
  also have "\<dots> \<longleftrightarrow> n \<le> 4 * k"
    by (simp only: of_nat_le_iff)
  finally show ?thesis .
qed

lemma detect_pages_Returns:
  "detect_pages (Returns r # pages) th =
     (if or_nil r \<noteq> []
         \<and> length (or_nil r) \<le> 4 * length (filter (\<lambda>w. w_x0 w < th) (or_nil r))
         \<and> length (or_nil r) \<le> 4 * length (filter (\<lambda>w. w_x0 w \<ge> th) (or_nil r))
      then Inr ''two'' else detect_pages pages th)"
proof (cases "or_nil r = []")
  case True
  then show ?thesis by simp
next
  case False
  then have pos: "0 < length (or_nil r)" by simp
  show ?thesis
    using False pos by (simp add: Let_def count_split quarter_share)
qed

lemma detect_layout_quick_Cons:
  "detect_layout_quick (Returns (Returns r # pages)) th =
     (if or_nil r \<noteq> []
         \<and> length (or_nil r) \<le> 4 * length (filter (\<lambda>w. w_x0 w < th) (or_nil r))
         \<and> length (or_nil r) \<le> 4 * length (filter (\<lambda>w. w_x0 w \<ge> th) (or_nil r))
      then ''two''
      else (case pages of
              [] \<Rightarrow> ''one''
            | Raises # _ \<Rightarrow> ''one''
            | Returns r' # _ \<Rightarrow>
                if or_nil r' \<noteq> []
                   \<and> length (or_nil r') \<le> 4 * length (filter (\<lambda>w. w_x0 w < th) (or_nil r'))
                   \<and> length (or_nil r') \<le> 4 * length (filter (\<lambda>w. w_x0 w \<ge> th) (or_nil r'))
                then ''two'' else ''one''))"
  unfolding detect_layout_quick_def
  by (cases pages; cases "hd pages")
     (simp_all add: detect_pages_Returns del: detect_pages.simps(3))

lemma detect_layout_quick_Raises:
  "detect_layout_quick (Returns (Raises # pages)) th = ''one''"
  by (simp add: detect_layout_quick_def)

lemma detect_layout_quick_Nil: "detect_layout_quick (Returns []) th = ''one''"
  by (simp add: detect_layout_quick_def)

text \<open>
  The statement of claim C5 fails: a page of 40 left and 35 right tokens gives \<open>two\<close> when
  it is the first page, but when extraction of the page before it raises, the scan never
  reaches it and the detector answers \<open>one\<close>.
\<close>

theorem layout_rule_counterexample:
  "detect_layout_quick
     (Returns [Returns (Some (replicate 40 left_token @ replicate 35 right_token))]) 260 = ''two''
   \<and> detect_layout_quick
       (Returns [Raises, Returns (Some (replicate 40 left_token @ replicate 35 right_token))]) 260
       = ''one''"
  by (simp add: detect_layout_quick_Cons detect_layout_quick_Raises or_nil_def
      left_token_def right_token_def)

text \<open>
  Claim C5, amended. If page \<open>i\<close>, one of the first two, has tokens, both the tokens left
  of the threshold and those at or right of it are at least a quarter of the page's
  tokens, and extraction raised on no sampled page before it, the detector answers \<open>two\<close>.
  If no page with tokens among the first two has such a split, the detector answers
  \<open>one\<close>. A page of 40 left and 35 right tokens gives \<open>two\<close>, one of 95 left and 5 right
  tokens gives \<open>one\<close>.
\<close>

theorem layout_detection_rule:
  "(\<forall>pages th i ws.
       i < 2 \<and> i < length pages \<and> pages ! i = Returns (Some ws) \<and> ws \<noteq> []
       \<and> (\<forall>j<i. pages ! j \<noteq> Raises)
       \<and> length ws \<le> 4 * length (filter (\<lambda>w. w_x0 w < th) ws)
       \<and> length ws \<le> 4 * length (filter (\<lambda>w. w_x0 w \<ge> th) ws)
       \<longrightarrow> detect_layout_quick (Returns pages) th = ''two'')
   \<and> (\<forall>pages th.
         (\<forall>p\<in>set (take 2 pages). \<forall>ws. p = Returns (Some ws) \<and> ws \<noteq> [] \<longrightarrow>
            \<not> (length ws \<le> 4 * length (filter (\<lambda>w. w_x0 w < th) ws)
               \<and> length ws \<le> 4 * length (filter (\<lambda>w. w_x0 w \<ge> th) ws)))
         \<longrightarrow> detect_layout_quick (Returns pages) th = ''one'')
   \<and> detect_layout_quick (Returns [Returns (Some (replicate 40 left_token @ replicate 35 right_token))]) 260 = ''two''
   \<and> detect_layout_quick (Returns [Returns (Some (replicate 95 left_token @ replicate 5 right_token))]) 260 = ''one''"
proof (intro conjI allI impI)
  fix pages :: "page list" and th :: rat and i :: nat and ws :: "word list"
  assume h: "i < 2 \<and> i < length pages \<and> pages ! i = Returns (Some ws) \<and> ws \<noteq> []
       \<and> (\<forall>j<i. pages ! j \<noteq> Raises)
       \<and> length ws \<le> 4 * length (filter (\<lambda>w. w_x0 w < th) ws)
       \<and> length ws \<le> 4 * length (filter (\<lambda>w. w_x0 w \<ge> th) ws)"
  then consider "i = 0" | "i = 1" by linarith
  then show "detect_layout_quick (Returns pages) th = ''two''"
  proof cases
    case 1
    with h obtain rest where "pages = Returns (Some ws) # rest"
      by (cases pages) auto
    with h show ?thesis
      by (simp add: detect_layout_quick_Cons or_nil_def)
  next
    case 2
    with h obtain p0 rest where pg: "pages = p0 # Returns (Some ws) # rest"
      by (cases pages; cases "tl pages") auto
    with h 2 have "p0 \<noteq> Raises" by auto
    then obtain r where "p0 = Returns r" by (cases p0) auto
    with pg h show ?thesis
      by (simp add: detect_layout_quick_Cons or_nil_def)
  qed
next
  fix pages :: "page list" and th :: rat
  assume h: "\<forall>p\<in>set (take 2 pages). \<forall>ws. p = Returns (Some ws) \<and> ws \<noteq> [] \<longrightarrow>
            \<not> (length ws \<le> 4 * length (filter (\<lambda>w. w_x0 w < th) ws)
               \<and> length ws \<le> 4 * length (filter (\<lambda>w. w_x0 w \<ge> th) ws))"
  have none: "\<And>r. Returns r \<in> set (take 2 pages) \<Longrightarrow>
       \<not> (or_nil r \<noteq> [] \<and> length (or_nil r) \<le> 4 * length (filter (\<lambda>w. w_x0 w < th) (or_nil r))
          \<and> length (or_nil r) \<le> 4 * length (filter (\<lambda>w. w_x0 w \<ge> th) (or_nil r)))"
    using h by (case_tac r) (auto simp: or_nil_def)
  show "detect_layout_quick (Returns pages) th = ''one''"
  proof (cases pages)
    case Nil
    then show ?thesis by (simp add: detect_layout_quick_Nil)
  next
    case (Cons p0 rest)
    show ?thesis
    proof (cases p0)
      case Raises
      with Cons show ?thesis by (simp add: detect_layout_quick_Raises)
    next
      case (Returns r)
      have a: "Returns r \<in> set (take 2 pages)" using Cons Returns by simp
      show ?thesis
      proof (cases rest)
        case Nil
        with Cons Returns none[OF a] show ?thesis
          by (simp add: detect_layout_quick_Cons)
      next
        case (Cons p1 rest')
        show ?thesis
        proof (cases p1)
          case Raises
          with Cons \<open>pages = p0 # rest\<close> Returns none[OF a] show ?thesis
            by (simp add: detect_layout_quick_Cons)
        next
          case r1: (Returns r')
          have b: "Returns r' \<in> set (take 2 pages)"
            using Cons \<open>pages = p0 # rest\<close> r1 by (simp add: numeral_2_eq_2)
          with Cons \<open>pages = p0 # rest\<close> Returns r1 none[OF a] none[OF b] show ?thesis
            by (simp add: detect_layout_quick_Cons)
        qed
      qed
    qed
  qed
next
  show "detect_layout_quick (Returns [Returns (Some (replicate 40 left_token @ replicate 35 right_token))]) 260 = ''two''"
    by (simp add: detect_layout_quick_Cons or_nil_def left_token_def right_token_def)
  show "detect_layout_quick (Returns [Returns (Some (replicate 95 left_token @ replicate 5 right_token))]) 260 = ''one''"
    by (simp add: detect_layout_quick_Cons or_nil_def left_token_def right_token_def)
qed

theorem layout_detection_rule_witness:
  "detect_layout_quick
     (Returns [Returns (Some [left_token, left_token, left_token, left_token, left_token, right_token]),
               Returns (Some [left_token, right_token])]) 260 = ''two''
   \<and> detect_layout_quick
       (Returns [Returns (Some []),
                 Returns (Some [left_token, left_token, left_token, left_token, left_token, right_token])])
       260 = ''one''"
proof -
  let ?six = "[left_token, left_token, left_token, left_token, left_token, right_token]"
  let ?pages = "[Returns (Some ?six), Returns (Some [left_token, right_token])] :: page list"
  let ?pages' = "[Returns (Some []), Returns (Some ?six)] :: page list"
  have h: "(1::nat) < 2 \<and> 1 < length ?pages \<and> ?pages ! 1 = Returns (Some [left_token, right_token])
       \<and> [left_token, right_token] \<noteq> []
       \<and> (\<forall>j<1. ?pages ! j \<noteq> Raises)
       \<and> length [left_token, right_token]
            \<le> 4 * length (filter (\<lambda>w. w_x0 w < 260) [left_token, right_token])
       \<and> length [left_token, right_token]
            \<le> 4 * length (filter (\<lambda>w. w_x0 w \<ge> 260) [left_token, right_token])"
    by (simp add: left_token_def right_token_def)
  have g: "\<forall>p\<in>set (take 2 ?pages'). \<forall>ws. p = Returns (Some ws) \<and> ws \<noteq> [] \<longrightarrow>
            \<not> (length ws \<le> 4 * length (filter (\<lambda>w. w_x0 w < 260) ws)
               \<and> length ws \<le> 4 * length (filter (\<lambda>w. w_x0 w \<ge> 260) ws))"
    by (auto simp: left_token_def right_token_def)
  from layout_detection_rule [THEN conjunct1, rule_format, OF h]
    layout_detection_rule [THEN conjunct2, THEN conjunct1, THEN spec, THEN spec, THEN mp, OF g]
  show ?thesis by (rule conjI)
qed

text \<open>
  The statement of claim C6 fails: an exception on the first page ends the scan with
  \<open>one\<close> although the second page alone gives \<open>two\<close>, and one failing page after a
  page without a qualifying split is enough for \<open>one\<close>.
\<close>

theorem layout_failure_counterexample:
  "detect_layout_quick (Returns [Returns (Some [left_token, right_token])]) 260 = ''two''
   \<and> detect_layout_quick (Returns [Raises, Returns (Some [left_token, right_token])]) 260 = ''one''
   \<and> detect_layout_quick (Returns [Returns (Some [left_token, left_token, left_token, left_token, left_token, right_token]), Raises]) 260 = ''one''"
  by (simp add: detect_layout_quick_Cons detect_layout_quick_Raises or_nil_def left_token_def right_token_def)

text \<open>
  Claim C6, amended. The \<open>try\<close> encloses the whole scan: when opening the document
  raises, or extraction raises on a sampled page that the scan reaches (the first page, or
  the second page after a first page without a qualifying split), the detector answers
  \<open>one\<close> at once and inspects no further page. A failure behind a qualifying page is never
  reached: the answer is \<open>two\<close>.
\<close>

theorem layout_failure_stops_scan:
  "(\<forall>th. detect_layout_quick Raises th = ''one'')
   \<and> (\<forall>rest th. detect_layout_quick (Returns (Raises # rest)) th = ''one'')
   \<and> (\<forall>r rest th.
         \<not> (or_nil r \<noteq> []
            \<and> length (or_nil r) \<le> 4 * length (filter (\<lambda>w. w_x0 w < th) (or_nil r))
            \<and> length (or_nil r) \<le> 4 * length (filter (\<lambda>w. w_x0 w \<ge> th) (or_nil r)))
         \<longrightarrow> detect_layout_quick (Returns (Returns r # Raises # rest)) th = ''one'')
   \<and> (\<forall>ws rest th.
         ws \<noteq> []
         \<and> length ws \<le> 4 * length (filter (\<lambda>w. w_x0 w < th) ws)
         \<and> length ws \<le> 4 * length (filter (\<lambda>w. w_x0 w \<ge> th) ws)
         \<longrightarrow> detect_layout_quick (Returns (Returns (Some ws) # rest)) th = ''two'')"
proof (intro conjI allI impI)
  fix th :: rat
  show "detect_layout_quick Raises th = ''one''"
    by (simp add: detect_layout_quick_def)
next
  fix rest :: "page list" and th :: rat
  show "detect_layout_quick (Returns (Raises # rest)) th = ''one''"
    by (rule detect_layout_quick_Raises)
next
  fix r :: "word list option" and rest :: "page list" and th :: rat
  assume "\<not> (or_nil r \<noteq> []
            \<and> length (or_nil r) \<le> 4 * length (filter (\<lambda>w. w_x0 w < th) (or_nil r))
            \<and> length (or_nil r) \<le> 4 * length (filter (\<lambda>w. w_x0 w \<ge> th) (or_nil r)))"
  then show "detect_layout_quick (Returns (Returns r # Raises # rest)) th = ''one''"
    by (simp only: detect_layout_quick_Cons if_False list.case attempt.case)
next
  fix ws :: "word list" and rest :: "page list" and th :: rat
  assume "ws \<noteq> []
         \<and> length ws \<le> 4 * length (filter (\<lambda>w. w_x0 w < th) ws)
         \<and> length ws \<le> 4 * length (filter (\<lambda>w. w_x0 w \<ge> th) ws)"
  then show "detect_layout_quick (Returns (Returns (Some ws) # rest)) th = ''two''"
    by (simp add: detect_layout_quick_Cons or_nil_def)
qed

theorem layout_failure_stops_scan_witness:
  "detect_layout_quick
     (Returns [Returns (Some [left_token, left_token, left_token, left_token, left_token, right_token]), Raises, Returns (Some [left_token, right_token])]) 260 = ''one''
   \<and> detect_layout_quick (Returns [Returns (Some [left_token, right_token]), Raises]) 260 = ''two''"
proof -
  let ?r = "Some [left_token, left_token, left_token, left_token, left_token, right_token]"
  have h: "\<not> (or_nil ?r \<noteq> []
            \<and> length (or_nil ?r) \<le> 4 * length (filter (\<lambda>w. w_x0 w < 260) (or_nil ?r))
            \<and> length (or_nil ?r) \<le> 4 * length (filter (\<lambda>w. w_x0 w \<ge> 260) (or_nil ?r)))"
    by (simp add: or_nil_def left_token_def right_token_def)
  have g: "[left_token, right_token] \<noteq> []
         \<and> length [left_token, right_token] \<le> 4 * length (filter (\<lambda>w. w_x0 w < 260) [left_token, right_token])
         \<and> length [left_token, right_token] \<le> 4 * length (filter (\<lambda>w. w_x0 w \<ge> 260) [left_token, right_token])"
    by (simp add: left_token_def right_token_def)
  note r = layout_failure_stops_scan [THEN conjunct2, THEN conjunct2]
  from r [THEN conjunct1, rule_format, OF h] r [THEN conjunct2, rule_format, OF g]
  show ?thesis by blast
qed

section \<open>Pages without tokens\<close>

lemma legacy_group_chars_error:
  "legacy_group_chars_to_lines chars y_tol = Inl e \<Longrightarrow> e = IndexError"
  by (simp add: legacy_group_chars_to_lines_def split: list.splits)

lemma extract_delegation_pages_empty_page:
  "extract_delegation_pages (pre @ [] # post) records = Inl IndexError"
proof (induction pre arbitrary: records)
  case Nil
  show ?case by (simp add: legacy_group_chars_to_lines_def)
next
  case (Cons pg pre)
  show ?case
  proof (cases "legacy_group_chars_to_lines pg 3")
    case (Inl e)
    then show ?thesis using legacy_group_chars_error [OF Inl] by simp
  next
    case (Inr lines)
    then show ?thesis using Cons.IH by simp
  qed
qed

lemma extract_singlecol_pages_append:
  "extract_singlecol_pages (pre @ post) records =
     extract_singlecol_pages post (extract_singlecol_pages pre records)"
  by (induction pre arbitrary: records) (simp_all add: Let_def)

text \<open>
  In \<open>extract_pdf_data.py\<close> a page without tokens gives no line, no paragraph and no
  record, and the pages around it are processed as if it were absent.
\<close>

lemma engine_empty_page:
  "group_chars_to_lines [] y_tol = []
   \<and> group_words_to_lines_with_y [] y_tol = []
   \<and> collect_paragraphs_with_y [] para_factor = []
   \<and> extract_singlecol_textpdf (pre @ [] # post) = extract_singlecol_textpdf (pre @ post)
   \<and> extract_twocol_pages (None # pages) th out = extract_twocol_pages pages th out
   \<and> extract_twocol_pages (Some [] # pages) th out = extract_twocol_pages pages th out"
  by (simp add: group_chars_to_lines_def group_words_to_lines_with_y_def
      collect_paragraphs_with_y_def extract_singlecol_textpdf_def
      extract_singlecol_pages_append singlecol_loop.simps or_nil_def)

text \<open>
  Claim C8 fails in \<open>single_column_bold_extract.py\<close>: its \<open>group_chars_to_lines\<close> raises
  \<open>IndexError\<close> on an empty character list, and \<open>extract_delegation_records\<close> does not
  catch it, so a document with an empty page anywhere yields the exception, not records.
\<close>

theorem legacy_empty_page_raises:
  "legacy_group_chars_to_lines [] y_tol = Inl IndexError
   \<and> extract_delegation_records (pre @ [] # post) = Inl IndexError"
  by (simp add: legacy_group_chars_to_lines_def extract_delegation_records_def
      extract_delegation_pages_empty_page)

section \<open>Paragraphs partition the lines\<close>

lemma para_loop_partition:
  assumes "para_loop th zs paras cur b0 b1 prev = (paras', cur', b0', b1')"
    and "\<forall>p\<in>set paras. fst p \<noteq> []"
  shows "concat (map fst paras') @ cur' = concat (map fst paras) @ cur @ map (fst \<circ> fst) zs
         \<and> (\<forall>p\<in>set paras'. fst p \<noteq> [])"
  using assms
proof (induction zs arbitrary: paras cur b0 b1 prev)
  case Nil
  then show ?case by simp
next
  case (Cons z zs)
  obtain t y0 y1 mid where z: "z = ((t, y0, y1), mid)"
    by (cases z) auto
  show ?case
  proof (cases "prev \<noteq> None \<and> mid - the prev > th \<and> cur \<noteq> []")
    case True
    let ?paras = "paras @ [(cur, (case b0 of Some b \<Rightarrow> b | None \<Rightarrow> y0),
                                 (case b1 of Some b \<Rightarrow> b | None \<Rightarrow> y1))]"
    from Cons.prems(1) True z
    have run: "para_loop th zs ?paras [t] (Some y0) (Some y1) (Some mid) = (paras', cur', b0', b1')"
      by simp
    have ne: "\<forall>p\<in>set ?paras. fst p \<noteq> []"
      using Cons.prems(2) True by simp
    from Cons.IH [OF run ne] z show ?thesis
      by simp
  next
    case False
    from Cons.prems(1) False z
    have run: "para_loop th zs paras (cur @ [t]) (if cur = [] then Some y0 else b0)
                 (Some y1) (Some mid) = (paras', cur', b0', b1')"
      by auto
    from Cons.IH [OF run Cons.prems(2)] z show ?thesis
      by simp
  qed
qed

lemma zip_mids_texts: "map (fst \<circ> fst) (zip ls (mids_of ls)) = map fst ls"
proof -
  have "length (mids_of ls) = length ls"
    by (simp add: mids_of_def)
  then have "map fst (zip ls (mids_of ls)) = ls"
    by simp
  then have "map fst (map fst (zip ls (mids_of ls))) = map fst ls"
    by (simp only:)
  then show ?thesis by simp
qed

lemma length_le_concat:
  "\<forall>xs\<in>set xss. xs \<noteq> [] \<Longrightarrow> length xss \<le> length (concat xss)"
proof (induction xss)
  case Nil
  show ?case by simp
next
  case (Cons xs xss)
  then have "xs \<noteq> []" and le: "length xss \<le> length (concat xss)"
    by simp_all
  then have "1 \<le> length xs"
    by (cases xs) simp_all
  with le show ?case by simp
qed

lemma collect_paragraphs_partition:
  "(\<forall>p\<in>set (collect_paragraphs_with_y ls pf). fst p \<noteq> [])
   \<and> concat (map fst (collect_paragraphs_with_y ls pf)) = map fst ls"
proof (cases "ls = []")
  case True
  then show ?thesis by (simp add: collect_paragraphs_with_y_def)
next
  case ne: False
  show ?thesis
  proof (cases "diffs_of (mids_of ls) = []")
    case True
    then have "length ls = 1"
      using ne by (cases ls; cases "tl ls") (auto simp: diffs_of_def mids_of_def)
    then obtain l where "ls = [l]"
      by (cases ls) auto
    with True show ?thesis
      by (cases l) (simp add: collect_paragraphs_with_y_def)
  next
    case False
    obtain paras cur b0 b1 where
      run: "para_loop (para_thresh ls pf) (zip ls (mids_of ls)) [] [] None None None
              = (paras, cur, b0, b1)"
      by (metis prod_cases4)
    have "\<forall>p\<in>set ([] :: para list). fst p \<noteq> []" by simp
    from para_loop_partition [OF run this]
    have inv: "concat (map fst paras) @ cur = map fst ls" "\<forall>p\<in>set paras. fst p \<noteq> []"
      by (simp_all add: zip_mids_texts)
    from ne False run inv show ?thesis
      by (auto simp: collect_paragraphs_with_y_def Let_def)
  qed
qed

text \<open>
  Claim C9. For every sequence of lines and every factor, each paragraph of the segmenter
  holds at least one line, the paragraphs' line lists concatenated are the texts of the
  input lines in order, and there are at most as many paragraphs as lines.
\<close>

theorem paragraph_partition:
  "(\<forall>p\<in>set (collect_paragraphs_with_y ls pf). length (fst p) \<ge> 1)
   \<and> concat (map fst (collect_paragraphs_with_y ls pf)) = map fst ls
   \<and> length (collect_paragraphs_with_y ls pf) \<le> length ls"
proof -
  let ?ps = "collect_paragraphs_with_y ls pf"
  have ne: "\<forall>p\<in>set ?ps. fst p \<noteq> []" and cat: "concat (map fst ?ps) = map fst ls"
    using collect_paragraphs_partition by blast+
  have "length (map fst ?ps) \<le> length (concat (map fst ?ps))"
    by (rule length_le_concat) (use ne in simp)
  then have "length ?ps \<le> length ls"
    by (simp add: cat)
  moreover have "\<forall>p\<in>set ?ps. length (fst p) \<ge> 1"
    using ne by (simp add: Suc_le_eq)
  ultimately show ?thesis using cat by blast
qed

theorem paragraph_partition_witness:
  "list_all (\<lambda>p. length (fst p) \<ge> 1)
     (collect_paragraphs_with_y [(''a'', 0, 0), (''b'', 1, 1), (''c'', 2, 2), (''d'', 4, 4)] (3 / 2))
   \<and> concat (map fst (collect_paragraphs_with_y [(''a'', 0, 0), (''b'', 1, 1), (''c'', 2, 2), (''d'', 4, 4)] (3 / 2)))
       = [''a'', ''b'', ''c'', ''d'']
   \<and> length (collect_paragraphs_with_y [(''a'', 0, 0), (''b'', 1, 1), (''c'', 2, 2), (''d'', 4, 4)] (3 / 2)) \<le> 4
   \<and> collect_paragraphs_with_y [(''a'', 0, 0), (''b'', 1, 1), (''c'', 2, 2), (''d'', 4, 4)] (3 / 2)
       = [([''a'', ''b'', ''c''], 0, 2), ([''d''], 4, 4)]"
proof -
  have "collect_paragraphs_with_y [(''a'', 0, 0), (''b'', 1, 1), (''c'', 2, 2), (''d'', 4, 4)] (3 / 2)
       = [([''a'', ''b'', ''c''], 0, 2), ([''d''], 4, 4)]"
    by code_simp
  then show ?thesis
    using paragraph_partition [of "[(''a'', 0, 0), (''b'', 1, 1), (''c'', 2, 2), (''d'', 4, 4)]" "3 / 2"]
    by simp
qed

section \<open>The two copies of the segmenter agree\<close>

text \<open>
  The copy in \<open>two_columns_file_extract.py\<close> returns the paragraphs of the copy in
  \<open>extract_pdf_data.py\<close>, with both bounds set: what is proved of one holds of the other.
\<close>

lemma legacy_para_loop_simulates:
  assumes "para_loop th zs paras cur b0 b1 prev = (paras', cur', b0', b1')"
    and "cur \<noteq> [] \<longrightarrow> b0 \<noteq> None \<and> b1 \<noteq> None"
  shows "legacy_para_loop th zs (map with_bounds paras) cur b0 b1 prev
           = (map with_bounds paras', cur', b0', b1')
         \<and> (cur' \<noteq> [] \<longrightarrow> b0' \<noteq> None \<and> b1' \<noteq> None)"
  using assms
proof (induction zs arbitrary: paras cur b0 b1 prev)
  case Nil
  then show ?case by simp
next
  case (Cons z zs)
  obtain t y0 y1 mid where z: "z = ((t, y0, y1), mid)"
    by (cases z) auto
  show ?case
  proof (cases "prev \<noteq> None \<and> mid - the prev > th \<and> cur \<noteq> []")
    case True
    with Cons.prems(2) obtain v0 v1 where b: "b0 = Some v0" "b1 = Some v1"
      by auto
    from Cons.prems(1) True z b
    have run: "para_loop th zs (paras @ [(cur, v0, v1)]) [t] (Some y0) (Some y1) (Some mid)
                 = (paras', cur', b0', b1')"
      by simp
    have "[t] \<noteq> [] \<longrightarrow> Some y0 \<noteq> None \<and> Some y1 \<noteq> None"
      by simp
    from Cons.IH [OF run this] True z b show ?thesis
      by (simp add: with_bounds_def)
  next
    case False
    from Cons.prems(1) False z
    have run: "para_loop th zs paras (cur @ [t]) (if cur = [] then Some y0 else b0)
                 (Some y1) (Some mid) = (paras', cur', b0', b1')"
      by auto
    have "cur @ [t] \<noteq> [] \<longrightarrow> (if cur = [] then Some y0 else b0) \<noteq> None \<and> Some y1 \<noteq> None"
      using Cons.prems(2) by simp
    from Cons.IH [OF run this] False z show ?thesis
      by auto
  qed
qed

lemma legacy_collect_paragraphs_agrees:
  "legacy_collect_paragraphs_with_y ls pf = map with_bounds (collect_paragraphs_with_y ls pf)"
proof (cases "ls = []")
  case True
  then show ?thesis
    by (simp add: legacy_collect_paragraphs_with_y_def collect_paragraphs_with_y_def)
next
  case ne: False
  show ?thesis
  proof (cases "diffs_of (mids_of ls) = []")
    case True
    then have "length ls = 1"
      using ne by (cases ls; cases "tl ls") (auto simp: diffs_of_def mids_of_def)
    then obtain l where "ls = [l]"
      by (cases ls) auto
    with True show ?thesis
      by (cases l)
        (simp add: legacy_collect_paragraphs_with_y_def collect_paragraphs_with_y_def
          mids_of_def with_bounds_def)
  next
    case False
    obtain paras cur b0 b1 where
      run: "para_loop (para_thresh ls pf) (zip ls (mids_of ls)) [] [] None None None
              = (paras, cur, b0, b1)"
      by (metis prod_cases4)
    have "([] :: string list) \<noteq> [] \<longrightarrow> (None :: rat option) \<noteq> None \<and> (None :: rat option) \<noteq> None"
      by simp
    from legacy_para_loop_simulates [OF run this]
    have sim: "legacy_para_loop (para_thresh ls pf) (zip ls (mids_of ls)) [] [] None None None
                 = (map with_bounds paras, cur, b0, b1)"
      and set: "cur \<noteq> [] \<longrightarrow> b0 \<noteq> None \<and> b1 \<noteq> None"
      by simp_all
    from ne False run sim set show ?thesis
      by (auto simp: legacy_collect_paragraphs_with_y_def collect_paragraphs_with_y_def
          Let_def para_thresh_def median_gap_def with_bounds_def)
  qed
qed

section \<open>The reference spacing of the segmenter\<close>

lemma sorted_count_below:
  fixes xs :: "rat list"
  assumes "sorted xs" and "k < length xs"
  shows "length (filter (\<lambda>x. x < xs ! k) xs) \<le> k"
proof -
  have "\<forall>x\<in>set (drop k xs). \<not> x < xs ! k"
  proof
    fix x assume "x \<in> set (drop k xs)"
    then obtain j where "j < length xs - k" "x = xs ! (k + j)"
      by (auto simp: in_set_conv_nth)
    moreover from this have "k + j < length xs"
      by linarith
    ultimately show "\<not> x < xs ! k"
      using assms(1) sorted_nth_mono [of xs k "k + j"] by simp
  qed
  then have "filter (\<lambda>x. x < xs ! k) (drop k xs) = []"
    by (simp add: filter_empty_conv)
  then have "filter (\<lambda>x. x < xs ! k) xs = filter (\<lambda>x. x < xs ! k) (take k xs)"
    by (metis append_Nil2 append_take_drop_id filter_append)
  then have "length (filter (\<lambda>x. x < xs ! k) xs) \<le> length (take k xs)"
    by (simp only: length_filter_le)
  then show ?thesis by simp
qed

lemma sorted_count_above:
  fixes xs :: "rat list"
  assumes "sorted xs" and "k < length xs"
  shows "length (filter (\<lambda>x. xs ! k < x) xs) \<le> length xs - Suc k"
proof -
  have "\<forall>x\<in>set (take (Suc k) xs). \<not> xs ! k < x"
  proof
    fix x assume "x \<in> set (take (Suc k) xs)"
    then obtain j where "j < Suc k" "x = xs ! j"
      using assms(2) by (auto simp: in_set_conv_nth)
    with assms show "\<not> xs ! k < x"
      using sorted_nth_mono [of xs j k] by simp
  qed
  then have "filter (\<lambda>x. xs ! k < x) (take (Suc k) xs) = []"
    by (simp add: filter_empty_conv)
  then have "filter (\<lambda>x. xs ! k < x) xs = filter (\<lambda>x. xs ! k < x) (drop (Suc k) xs)"
    by (metis append_Nil append_take_drop_id filter_append)
  then have "length (filter (\<lambda>x. xs ! k < x) xs) \<le> length (drop (Suc k) xs)"
    by (simp only: length_filter_le)
  then show ?thesis by simp
qed

lemma count_sort:
  fixes ds :: "rat list"
  shows "length (filter P (sort ds)) = length (filter P ds)"
  by (simp add: filter_sort)

text \<open>
  The statement of claim C2 fails: with the two gaps 1 and 3 the reference spacing is 3,
  the element at index 1 of the sorted gaps, not the lower median 1 at index 0. The
  threshold is 9/2, so the gap of 3 does not split and the three lines form one paragraph.
\<close>

theorem lower_median_counterexample:
  "length (diffs_of (mids_of three_lines)) = 2
   \<and> sort (diffs_of (mids_of three_lines)) = [1, 3]
   \<and> median_gap (diffs_of (mids_of three_lines)) = 3
   \<and> median_gap (diffs_of (mids_of three_lines)) \<noteq> sort (diffs_of (mids_of three_lines)) ! (2 div 2 - 1)
   \<and> para_thresh three_lines (3 / 2) = 9 / 2
   \<and> collect_paragraphs_with_y three_lines (3 / 2) = [([''a'', ''b'', ''c''], 0, 4)]"
proof -
  have ds: "diffs_of (mids_of three_lines) = [1, 3]"
    by (simp add: three_lines_def mids_of_def diffs_of_def upt_rec)
  have "collect_paragraphs_with_y three_lines (3 / 2) = [([''a'', ''b'', ''c''], 0, 4)]"
    unfolding three_lines_def by code_simp
  then show ?thesis
    by (simp add: ds median_gap_def para_thresh_def)
qed

text \<open>
  Claim C2, amended. For an even number \<open>n \<ge> 2\<close> of gaps the reference spacing is the
  element at index \<open>n div 2\<close> of the sorted gaps, the upper median: it is at least the
  element at index \<open>n div 2 - 1\<close>, at most \<open>n div 2\<close> gaps are smaller and at most
  \<open>n div 2 - 1\<close> are larger. The threshold is that spacing times the paragraph factor.
\<close>

theorem reference_spacing_upper_median:
  assumes "n = length (diffs_of (mids_of ls))" and "even n" and "2 \<le> n"
  shows "median_gap (diffs_of (mids_of ls)) = sort (diffs_of (mids_of ls)) ! (n div 2)
       \<and> para_thresh ls pf = sort (diffs_of (mids_of ls)) ! (n div 2) * pf
       \<and> sort (diffs_of (mids_of ls)) ! (n div 2 - 1) \<le> median_gap (diffs_of (mids_of ls))
       \<and> length (filter (\<lambda>d. d < median_gap (diffs_of (mids_of ls))) (diffs_of (mids_of ls))) \<le> n div 2
       \<and> length (filter (\<lambda>d. median_gap (diffs_of (mids_of ls)) < d) (diffs_of (mids_of ls))) \<le> n div 2 - 1"
proof -
  let ?ds = "diffs_of (mids_of ls)"
  let ?k = "n div 2"
  have k: "?k < length (sort ?ds)"
    using assms by simp
  have m: "median_gap ?ds = sort ?ds ! ?k"
    using assms(1) by (simp add: median_gap_def)
  have srt: "sorted (sort ?ds)"
    by simp
  have low: "sort ?ds ! (?k - 1) \<le> sort ?ds ! ?k"
    using sorted_nth_mono [OF srt, of "?k - 1" ?k] k by simp
  have "length (filter (\<lambda>d. d < sort ?ds ! ?k) (sort ?ds)) \<le> ?k"
    by (rule sorted_count_below [OF srt k])
  then have below: "length (filter (\<lambda>d. d < sort ?ds ! ?k) ?ds) \<le> ?k"
    by (simp only: count_sort)
  have "length (filter (\<lambda>d. sort ?ds ! ?k < d) (sort ?ds)) \<le> length (sort ?ds) - Suc ?k"
    by (rule sorted_count_above [OF srt k])
  then have "length (filter (\<lambda>d. sort ?ds ! ?k < d) ?ds) \<le> n - Suc ?k"
    using assms(1) by (simp only: count_sort length_sort)
  moreover have "n - Suc ?k = ?k - 1"
    using assms(2,3) by (auto elim!: evenE)
  ultimately have above: "length (filter (\<lambda>d. sort ?ds ! ?k < d) ?ds) \<le> ?k - 1"
    by simp
  from m low below above show ?thesis
    by (simp add: para_thresh_def)
qed

theorem reference_spacing_upper_median_witness:
  "median_gap (diffs_of (mids_of three_lines)) = sort (diffs_of (mids_of three_lines)) ! (2 div 2)
   \<and> para_thresh three_lines (3 / 2) = sort (diffs_of (mids_of three_lines)) ! (2 div 2) * (3 / 2)
   \<and> sort (diffs_of (mids_of three_lines)) ! (2 div 2 - 1) \<le> median_gap (diffs_of (mids_of three_lines))
   \<and> length (filter (\<lambda>d. d < median_gap (diffs_of (mids_of three_lines)))
        (diffs_of (mids_of three_lines))) \<le> 2 div 2
   \<and> length (filter (\<lambda>d. median_gap (diffs_of (mids_of three_lines)) < d)
        (diffs_of (mids_of three_lines))) \<le> 2 div 2 - 1"
proof -
  have ds: "diffs_of (mids_of three_lines) = [1, 3]"
    by (simp add: three_lines_def mids_of_def diffs_of_def upt_rec)
  have n: "(2::nat) = length (diffs_of (mids_of three_lines))" "even (2::nat)" "(2::nat) \<le> 2"
    by (simp_all add: ds)
  show ?thesis
    by (rule reference_spacing_upper_median [OF n])
qed

section \<open>Trimming and header-shaped texts\<close>














section \<open>The column loop as a map\<close>

lemma column_loop_map:
  assumes "\<forall>p\<in>set paras. fst p \<noteq> []"
  shows "column_loop headers paras records =
           records @ map (para_record headers) (filter (\<lambda>p. \<not> is_pure_header p) paras)"
  using assms
proof (induction paras arbitrary: records)
  case Nil
  show ?case by simp
next
  case (Cons p paras)
  obtain blk y0 y1 where p: "p = (blk, y0, y1)"
    by (cases p) auto
  from Cons.prems have ne: "blk \<noteq> []" and rest: "\<forall>q\<in>set paras. fst q \<noteq> []"
    by (simp_all add: p)
  show ?case
  proof (cases "length blk = 1 \<and> is_all_caps_header (blk ! 0)")
    case True
    then show ?thesis
      using Cons.IH [OF rest] by (simp add: p is_pure_header_def)
  next
    case False
    then show ?thesis
      using Cons.IH [OF rest] ne
      by (simp add: p is_pure_header_def para_record_def Let_def split: prod.splits)
  qed
qed

lemma column_paras_nonempty: "\<forall>p\<in>set (column_paras col_words). fst p \<noteq> []"
  unfolding column_paras_def Let_def using collect_paragraphs_partition by blast

lemma twocol_records_map:
  "twocol_records_from_words words th =
     map (para_record (page_headers words))
       (filter (\<lambda>p. \<not> is_pure_header p)
          (column_paras (left_words words th) @ column_paras (right_words words th)))"
  by (simp add: twocol_records_from_words_def Let_def column_loop_map column_paras_nonempty)

lemma header_scan_above: "\<forall>h\<in>set headers. mid < fst h \<Longrightarrow> header_scan headers mid ans = ans"
  by (cases headers) auto

lemma header_for_mid_above:
  "\<forall>h\<in>set headers. mid < fst h \<Longrightarrow> or_empty (header_for_mid headers mid) = []"
  by (simp add: header_for_mid_def header_scan_above or_empty_def)

section \<open>The older two-column script follows the same paragraphs\<close>

lemma is_delegation_eq: "is_delegation t = is_all_caps_header t"
  by (cases "t = []") (simp_all add: is_delegation_def is_all_caps_header_def strip_def)

lemma find_delegation_eq: "find_delegation headers mid = header_for_mid headers mid"
  by (simp add: find_delegation_def header_for_mid_def)

lemma sort_key_twice:
  fixes f :: "'a \<Rightarrow> 'b::linorder"
  shows "sort_key f (sort_key f xs) = sort_key f xs"
  by (rule sort_key_id_if_sorted) simp

lemma legacy_group_words_sorted:
  "legacy_group_words_to_lines_with_y (sort_key (\<lambda>w. (w_top w, w_x0 w)) words) y_tol
     = group_words_to_lines_with_y words y_tol"
proof (cases "words = []")
  case True
  then show ?thesis
    by (simp add: legacy_group_words_to_lines_with_y_def group_words_to_lines_with_y_def)
next
  case False
  then have "sort_key (\<lambda>w. (w_top w, w_x0 w)) words \<noteq> []"
    by (metis length_0_conv length_sort)
  with False show ?thesis
    by (simp add: legacy_group_words_to_lines_with_y_def group_words_to_lines_with_y_def Let_def)
qed

lemma legacy_group_words_column:
  "legacy_group_words_to_lines_with_y (sort_key (\<lambda>w. (w_top w, w_x0 w)) ws) y_tol
     = group_words_to_lines_with_y (sort_key (\<lambda>w. (w_top w, w_x0 w)) ws) y_tol"
proof -
  have "group_words_to_lines_with_y (sort_key (\<lambda>w. (w_top w, w_x0 w)) ws) y_tol
      = legacy_group_words_to_lines_with_y
          (sort_key (\<lambda>w. (w_top w, w_x0 w)) (sort_key (\<lambda>w. (w_top w, w_x0 w)) ws)) y_tol"
    by (simp only: legacy_group_words_sorted)
  then show ?thesis
    by (simp only: sort_key_twice)
qed

lemma legacy_headers_loop_eq:
  "legacy_headers_loop (map with_bounds ps) hs = Inr (headers_loop ps hs)"
proof (induction ps arbitrary: hs)
  case Nil
  show ?case by simp
next
  case (Cons p ps)
  obtain blk y0 y1 where p: "p = (blk, y0, y1)"
    by (cases p) auto
  have wb: "with_bounds (blk, y0, y1) = (blk, Some y0, Some y1)"
    by (simp add: with_bounds_def)
  show ?case
    by (simp add: p wb is_delegation_eq Cons.IH Let_def)
qed

lemma legacy_column_loop_map:
  assumes "\<forall>p\<in>set ps. fst p \<noteq> []"
  shows "legacy_column_loop pat hs (map with_bounds ps) records =
           Inr (records @ map (legacy_para_record pat hs) (filter (\<lambda>p. \<not> is_pure_header p) ps))"
  using assms
proof (induction ps arbitrary: records)
  case Nil
  show ?case by simp
next
  case (Cons p ps)
  obtain blk y0 y1 where p: "p = (blk, y0, y1)"
    by (cases p) auto
  from Cons.prems have ne: "blk \<noteq> []" and rest: "\<forall>q\<in>set ps. fst q \<noteq> []"
    by (simp_all add: p)
  then obtain first others where blk: "blk = first # others"
    by (cases blk) auto
  have wb: "with_bounds (blk, y0, y1) = (blk, Some y0, Some y1)"
    by (simp add: with_bounds_def)
  show ?case
  proof (cases "length blk = 1 \<and> is_all_caps_header (blk ! 0)")
    case True
    then show ?thesis
      using Cons.IH [OF rest]
      by (simp add: p wb is_delegation_eq is_pure_header_def)
  next
    case False
    then have keep: "\<not> is_pure_header (blk, y0, y1)"
      by (simp add: is_pure_header_def)
    have step: "legacy_column_loop pat hs ((blk, Some y0, Some y1) # map with_bounds ps) records
                = legacy_column_loop pat hs (map with_bounds ps)
                    (records @ [legacy_para_record pat hs (blk, y0, y1)])"
      using False
      by (auto simp: blk is_delegation_eq legacy_para_record_def Let_def split: option.splits)
    show ?thesis
      by (simp add: p wb step keep Cons.IH [OF rest] del: legacy_column_loop.simps)
  qed
qed

lemma extract_by_blank_page_map:
  "extract_by_blank_page pat words th records =
     Inr (records @ map (legacy_para_record pat (page_headers words))
            (filter (\<lambda>p. \<not> is_pure_header p)
               (column_paras (left_words words th) @ column_paras (right_words words th))))"
proof -
  have hs: "legacy_headers_loop
              (legacy_collect_paragraphs_with_y
                 (legacy_group_words_to_lines_with_y (sort_key (\<lambda>w. (w_top w, w_x0 w)) words) 3)
                 (3 / 2)) []
            = Inr (headers_loop (collect_paragraphs_with_y (group_words_to_lines_with_y words 3) (3 / 2)) [])"
    by (simp only: legacy_group_words_sorted legacy_collect_paragraphs_agrees legacy_headers_loop_eq)
  have hdrs: "sort_key fst (headers_loop
                (collect_paragraphs_with_y (group_words_to_lines_with_y words 3) (3 / 2)) [])
              = page_headers words"
    by (simp add: page_headers_def detect_headers_def Let_def)
  have left: "legacy_collect_paragraphs_with_y
                (legacy_group_words_to_lines_with_y
                   (sort_key (\<lambda>w. (w_top w, w_x0 w)) (filter (\<lambda>w. w_x0 w < th) words)) 3) (3 / 2)
             = map with_bounds (column_paras (left_words words th))"
    by (simp only: legacy_group_words_column legacy_collect_paragraphs_agrees column_paras_def
        left_words_def Let_def)
  have right: "legacy_collect_paragraphs_with_y
                (legacy_group_words_to_lines_with_y
                   (sort_key (\<lambda>w. (w_top w, w_x0 w)) (filter (\<lambda>w. w_x0 w \<ge> th) words)) 3) (3 / 2)
             = map with_bounds (column_paras (right_words words th))"
    by (simp only: legacy_group_words_column legacy_collect_paragraphs_agrees column_paras_def
        right_words_def Let_def)
  show ?thesis
    unfolding extract_by_blank_page_def Let_def left right hs
    by (simp add: hdrs legacy_column_loop_map column_paras_nonempty)
qed

section \<open>Paragraphs above every header\<close>

text \<open>
  In \<open>extract_pdf_data.py\<close> a paragraph of the left or right column that is not a lone
  header-shaped line and whose midpoint lies strictly above the midpoint of every header
  of the page (so also on a page without headers) gives a record, and the record's
  delegation is the empty string; its other fields come from the first line and the
  remaining lines as usual.
\<close>

lemma engine_unresolvable_delegation:
  assumes "p \<in> set (column_paras (left_words words th)) \<union> set (column_paras (right_words words th))"
    and "\<not> (length (fst p) = 1 \<and> is_all_caps_header (fst p ! 0))"
    and "\<forall>h\<in>set (page_headers words). (fst (snd p) + snd (snd p)) / 2 < fst h"
  shows "\<lparr>Delegation = [],
          Honorific = fst (split_honorific_and_person (strip (hd (fst p)))),
          Person_Name = snd (split_honorific_and_person (strip (hd (fst p)))),
          Affiliation = strip (join_space (map strip (tl (fst p))))\<rparr>
         \<in> set (twocol_records_from_words words th)"
proof -
  obtain blk y0 y1 where p: "p = (blk, y0, y1)"
    by (cases p) auto
  have keep: "\<not> is_pure_header p"
    using assms(2) by (simp add: p is_pure_header_def)
  have "or_empty (header_for_mid (page_headers words) ((y0 + y1) / 2)) = []"
    by (rule header_for_mid_above) (use assms(3) in \<open>simp add: p\<close>)
  then have "para_record (page_headers words) p =
      \<lparr>Delegation = [],
       Honorific = fst (split_honorific_and_person (strip (hd (fst p)))),
       Person_Name = snd (split_honorific_and_person (strip (hd (fst p)))),
       Affiliation = strip (join_space (map strip (tl (fst p))))\<rparr>"
    by (simp add: para_record_def p)
  moreover have "para_record (page_headers words) p \<in> set (twocol_records_from_words words th)"
    using assms(1) keep by (auto simp: twocol_records_map)
  ultimately show ?thesis by simp
qed

lemma engine_unresolvable_delegation_example:
  "\<lparr>Delegation = [], Honorific = [], Person_Name = ''Jane Roe'', Affiliation = ''Dept. Wildlife''\<rparr>
     \<in> set (twocol_records_from_words sample_page 260)
   \<and> page_headers sample_page = [(100, ''ARGENTINA'')]"
proof -
  let ?p = "([''Jane Roe'', ''Dept.'', ''Wildlife''], 10, 34) :: para"
  have hs: "page_headers sample_page = [(100, ''ARGENTINA'')]"
    unfolding sample_page_def by code_simp
  have left: "column_paras (left_words sample_page 260) = [?p, ([''ARGENTINA''], 100, 100)]"
    unfolding sample_page_def by code_simp
  have a: "?p \<in> set (column_paras (left_words sample_page 260))
             \<union> set (column_paras (right_words sample_page 260))"
    by (simp add: left)
  have b: "\<not> (length (fst ?p) = 1 \<and> is_all_caps_header (fst ?p ! 0))"
    by simp
  have c: "\<forall>h\<in>set (page_headers sample_page). (fst (snd ?p) + snd (snd ?p)) / 2 < fst h"
    by (simp add: hs)
  have sp: "split_honorific_and_person (strip ''Jane Roe'') = ([], ''Jane Roe'')"
    by (simp add: split_honorific_and_person_def text_defs pattern_defs)
  have aff: "strip (join_space (map strip [''Dept.'', ''Wildlife''])) = ''Dept. Wildlife''"
    by (simp add: text_defs)
  have "\<lparr>Delegation = [],
          Honorific = fst (split_honorific_and_person (strip (hd (fst ?p)))),
          Person_Name = snd (split_honorific_and_person (strip (hd (fst ?p)))),
          Affiliation = strip (join_space (map strip (tl (fst ?p))))\<rparr>
         \<in> set (twocol_records_from_words sample_page 260)"
    by (rule engine_unresolvable_delegation [OF a b c])
  moreover have "fst (split_honorific_and_person (strip (hd (fst ?p)))) = []"
    and "snd (split_honorific_and_person (strip (hd (fst ?p)))) = ''Jane Roe''"
    and "strip (join_space (map strip (tl (fst ?p)))) = ''Dept. Wildlife''"
    using sp aff by simp_all
  ultimately show ?thesis
    using hs by (simp only: simp_thms)
qed

text \<open>
  \<open>find_delegation\<close> of \<open>two_columns_file_extract.py\<close> is the same scan as
  \<open>header_for_mid\<close>, and that script stores its result as it is: for a paragraph above
  every header the value kept under the \<open>Delegation\<close> key there is \<open>None\<close>.
\<close>

lemma header_for_mid_above_None:
  "\<forall>h\<in>set headers. mid < fst h \<Longrightarrow> header_for_mid headers mid = None"
  by (simp add: header_for_mid_def header_scan_above)

lemma legacy_unresolvable_delegation:
  assumes "p \<in> set (column_paras (left_words words th)) \<union> set (column_paras (right_words words th))"
    and "\<not> (length (fst p) = 1 \<and> is_all_caps_header (fst p ! 0))"
    and "\<forall>h\<in>set (page_headers words). (fst (snd p) + snd (snd p)) / 2 < fst h"
  shows "\<exists>recs. extract_by_blank_page pat words th [] = Inr recs
           \<and> (\<exists>r\<in>set recs. r = legacy_para_record pat (page_headers words) p
                              \<and> T_Delegation r = None)"
proof -
  obtain blk y0 y1 where p: "p = (blk, y0, y1)"
    by (cases p) auto
  have keep: "\<not> is_pure_header p"
    using assms(2) by (simp add: p is_pure_header_def)
  have "header_for_mid (page_headers words) ((y0 + y1) / 2) = None"
    by (rule header_for_mid_above_None) (use assms(3) in \<open>simp add: p\<close>)
  then have "T_Delegation (legacy_para_record pat (page_headers words) p) = None"
    by (simp add: legacy_para_record_def p find_delegation_eq)
  moreover have "legacy_para_record pat (page_headers words) p
      \<in> set (map (legacy_para_record pat (page_headers words))
            (filter (\<lambda>p. \<not> is_pure_header p)
               (column_paras (left_words words th) @ column_paras (right_words words th))))"
    using assms(1) keep by auto
  ultimately show ?thesis
    by (simp only: extract_by_blank_page_map append_Nil) blast
qed

text \<open>
  Claim C3 fails in \<open>two_columns_file_extract.py\<close>. On \<open>sample_page\<close>, where the person
  block lies above the only header, \<open>extract_by_blank_lines\<close> returns one record whose
  delegation is \<open>None\<close>, whatever the honorific pattern; \<open>_twocol_records_from_words\<close>
  returns the empty string there.
\<close>

theorem legacy_unresolved_delegation_none:
  "extract_by_blank_lines pat [sample_page] 260 =
     Inr [\<lparr>T_Delegation = None,
           T_Honorific = (case re_match pat ''Jane Roe'' of Some g \<Rightarrow> strip g | None \<Rightarrow> []),
           T_Person_Name = (case re_match pat ''Jane Roe'' of
                              Some g \<Rightarrow> strip (drop (length g) ''Jane Roe'')
                            | None \<Rightarrow> ''Jane Roe''),
           T_Affiliation = ''Dept. Wildlife''\<rparr>]
   \<and> twocol_records_from_words sample_page 260 =
       [\<lparr>Delegation = [], Honorific = [], Person_Name = ''Jane Roe'',
         Affiliation = ''Dept. Wildlife''\<rparr>]"
proof
  have hs: "page_headers sample_page = [(100, ''ARGENTINA'')]"
    unfolding sample_page_def by code_simp
  have left: "column_paras (left_words sample_page 260)
                = [([''Jane Roe'', ''Dept.'', ''Wildlife''], 10, 34), ([''ARGENTINA''], 100, 100)]"
    unfolding sample_page_def by code_simp
  have right: "column_paras (right_words sample_page 260) = []"
    unfolding sample_page_def by code_simp
  have pure: "\<not> is_pure_header ([''Jane Roe'', ''Dept.'', ''Wildlife''], 10, 34)"
    "is_pure_header ([''ARGENTINA''], 100, 100)"
    by (simp_all add: is_pure_header_def is_all_caps_header_def text_defs isupper_def)
  have rec: "legacy_para_record pat [(100, ''ARGENTINA'')] ([''Jane Roe'', ''Dept.'', ''Wildlife''], 10, 34)
       = \<lparr>T_Delegation = None,
           T_Honorific = (case re_match pat ''Jane Roe'' of Some g \<Rightarrow> strip g | None \<Rightarrow> []),
           T_Person_Name = (case re_match pat ''Jane Roe'' of
                              Some g \<Rightarrow> strip (drop (length g) ''Jane Roe'')
                            | None \<Rightarrow> ''Jane Roe''),
           T_Affiliation = ''Dept. Wildlife''\<rparr>"
    by (simp add: legacy_para_record_def find_delegation_def text_defs split: option.splits)
  show "extract_by_blank_lines pat [sample_page] 260 =
     Inr [\<lparr>T_Delegation = None,
           T_Honorific = (case re_match pat ''Jane Roe'' of Some g \<Rightarrow> strip g | None \<Rightarrow> []),
           T_Person_Name = (case re_match pat ''Jane Roe'' of
                              Some g \<Rightarrow> strip (drop (length g) ''Jane Roe'')
                            | None \<Rightarrow> ''Jane Roe''),
           T_Affiliation = ''Dept. Wildlife''\<rparr>]"
    by (simp add: extract_by_blank_lines_def extract_by_blank_page_map hs left right pure rec)
  show "twocol_records_from_words sample_page 260 =
       [\<lparr>Delegation = [], Honorific = [], Person_Name = ''Jane Roe'',
         Affiliation = ''Dept. Wildlife''\<rparr>]"
    unfolding sample_page_def by code_simp
qed

section \<open>Header-shaped first lines\<close>




end
